theory Spec2Isabelle
  imports Main "HOL-Library.Char_ord" "HOL-Library.List_Lexorder"
begin

section \<open>Text primitives used by the PPTX generator\<close>

text \<open>
  The generator (\<^verbatim>\<open>src/agents/pptx_generator.py\<close>) finds placeholders with the compiled
  regular expression \<^verbatim>\<open>{{(.*?)}}\<close> (the default \<^verbatim>\<open>placeholder_pattern\<close>) and
  substitutes them with \<^verbatim>\<open>str.replace\<close>. Texts are \<^typ>\<open>string\<close>s; the line feed is
  \<^term>\<open>CHR 0x0A\<close>, the vertical tab \<^term>\<open>CHR 0x0B\<close> and the carriage return
  \<^term>\<open>CHR 0x0D\<close>.
\<close>

abbreviation LF :: char where "LF \<equiv> CHR 0x0A"
abbreviation VT :: char where "VT \<equiv> CHR 0x0B"
abbreviation CR :: char where "CR \<equiv> CHR 0x0D"

text \<open>
  The group \<^verbatim>\<open>(.*?)}}\<close> of the pattern, tried at the text that follows an opening
  \<^verbatim>\<open>{{\<close>: the lazy star first tries to close the token with \<^verbatim>\<open>}}\<close> and only then
  consumes one more character; the dot matches every character but the line feed. The
  result is the captured name and the text after the closing braces.
\<close>

fun lazy_group :: "string \<Rightarrow> (string \<times> string) option" where
  "lazy_group [] = None"
| "lazy_group (c # cs) =
     (if take 2 (c # cs) = ''}}'' then Some ([], drop 2 (c # cs))
      else if c = LF then None
      else (case lazy_group cs of
              None \<Rightarrow> None
            | Some (name, rest) \<Rightarrow> Some (c # name, rest)))"

text \<open>One attempt of the whole pattern at the start of a text.\<close>

definition match_at :: "string \<Rightarrow> (string \<times> string) option" where
  "match_at s = (if take 2 s = ''{{'' then lazy_group (drop 2 s) else None)"

lemma lazy_group_shorter: "lazy_group s = Some (name, rest) \<Longrightarrow> length rest < length s"
proof (induction s arbitrary: name rest)
  case Nil
  then show ?case by simp
next
  case (Cons c cs)
  show ?case
  proof (cases "take 2 (c # cs) = ''}}''")
    case True
    with Cons.prems show ?thesis by auto
  next
    case False
    with Cons.prems obtain n where "lazy_group cs = Some (n, rest)"
      by (auto split: if_splits option.splits)
    from Cons.IH[OF this] show ?thesis by simp
  qed
qed

lemma match_at_shorter: "match_at s = Some (name, rest) \<Longrightarrow> length rest < length s"
  by (auto simp: match_at_def split: if_splits dest!: lazy_group_shorter)

text \<open>
  \<^verbatim>\<open>placeholder_pattern.findall(text)\<close>: the captured names of the non-overlapping
  matches, scanning from the left; after a match the scan resumes behind it, otherwise
  one character further.
\<close>

function findall :: "string \<Rightarrow> string list" where
  "findall [] = []"
| "findall (c # cs) =
     (case match_at (c # cs) of
        Some (name, rest) \<Rightarrow> name # findall rest
      | None \<Rightarrow> findall cs)"
  by pat_completeness auto
termination
  by (relation "measure length") (auto dest: match_at_shorter)

text \<open>The f-string \<^verbatim>\<open>f"{{{{{match}}}}}"\<close>: the name between doubled braces.\<close>

definition placeholder :: "string \<Rightarrow> string" where
  "placeholder name = ''{{'' @ name @ ''}}''"

text \<open>
  \<^verbatim>\<open>s.replace(old, new)\<close>: every non-overlapping occurrence of \<open>old\<close>, from the left;
  an empty \<open>old\<close> matches before every character and at the end.
\<close>

function str_replace :: "string \<Rightarrow> string \<Rightarrow> string \<Rightarrow> string" where
  "str_replace [] old new = (if old = [] then new else [])"
| "str_replace (c # cs) old new =
     (if old = [] then new @ c # str_replace cs old new
      else if take (length old) (c # cs) = old
        then new @ str_replace (drop (length old) (c # cs)) old new
      else c # str_replace cs old new)"
  by pat_completeness auto
termination
  by (relation "measure (\<lambda>(s, old, new). length s)") auto

text \<open>\<^verbatim>\<open>"\n".join(parts)\<close> and \<^verbatim>\<open>text.split("\n")\<close>.\<close>

fun join_nl :: "string list \<Rightarrow> string" where
  "join_nl [] = []"
| "join_nl [p] = p"
| "join_nl (p # q # ps) = p @ LF # join_nl (q # ps)"

fun split_nl :: "string \<Rightarrow> string list" where
  "split_nl [] = [[]]"
| "split_nl (c # cs) =
     (if c = LF then [] # split_nl cs
      else (case split_nl cs of
              p # ps \<Rightarrow> (c # p) # ps
            | [] \<Rightarrow> [[c]]))"

section \<open>Substitution values\<close>

text \<open>
  The substitution dictionary maps placeholder names to arbitrary Python values (the
  HTTP layer passes the result of \<^verbatim>\<open>json.loads\<close>); the generator only ever applies
  \<^verbatim>\<open>str\<close> to them. \<open>PUnprintable\<close> stands for an object whose \<^verbatim>\<open>__str__\<close> raises.
\<close>

datatype pyval = PStr string | PInt int | PBool bool | PNone | PUnprintable

datatype error =
    ValueError            \<comment> \<open>no presentation is loaded, or \<^verbatim>\<open>str\<close> of too long an integer\<close>
  | FileNotFoundError     \<comment> \<open>the template path does not exist\<close>
  | PackageNotFoundError  \<comment> \<open>\<^verbatim>\<open>Presentation(path)\<close> cannot parse the file\<close>
  | TypeError             \<comment> \<open>\<^verbatim>\<open>str(value)\<close> fails\<close>
  | OSError               \<comment> \<open>the output file cannot be written\<close>

type_synonym subst_data = "string \<rightharpoonup> pyval"

fun str_nat :: "nat \<Rightarrow> string" where
  "str_nat n =
     (if n < 10 then [''0123456789'' ! n]
      else str_nat (n div 10) @ [''0123456789'' ! (n mod 10)])"

declare str_nat.simps [simp del]

definition str_int :: "int \<Rightarrow> string" where
  "str_int i = (if i < 0 then CHR ''-'' # str_nat (nat (- i)) else str_nat (nat i))"

text \<open>
  \<^verbatim>\<open>str(value)\<close>. The interpreter refuses to convert an integer of more than
  \<^verbatim>\<open>sys.get_int_max_str_digits()\<close> decimal digits (4300 unless configured otherwise, the
  sign not counted) and raises \<^verbatim>\<open>ValueError\<close>.
\<close>

definition int_max_str_digits :: nat where
  "int_max_str_digits = 4300"

fun py_str :: "pyval \<Rightarrow> error + string" where
  "py_str (PStr s) = Inr s"
| "py_str (PInt i) =
     (if length (str_nat (nat \<bar>i\<bar>)) > int_max_str_digits then Inl ValueError
      else Inr (str_int i))"
| "py_str (PBool b) = Inr (if b then ''True'' else ''False'')"
| "py_str PNone = Inr ''None''"
| "py_str PUnprintable = Inl TypeError"

text \<open>
  The loop shared by the text-frame, paragraph and table passes:
  \<^verbatim>\<open>
  for match in self.placeholder_pattern.findall(original_text):
      if match in data:
          placeholder = f"{{{{{match}}}}}"
          new_text = new_text.replace(placeholder, str(data[match]))
          replaced_count += 1
  \<close>
  run over the list of matches, with the text rewritten so far and the count so far.
\<close>

fun replace_matches ::
  "subst_data \<Rightarrow> string list \<Rightarrow> string \<Rightarrow> nat \<Rightarrow> error + (string \<times> nat)" where
  "replace_matches data [] new_text replaced_count = Inr (new_text, replaced_count)"
| "replace_matches data (m # ms) new_text replaced_count =
     (case data m of
        None \<Rightarrow> replace_matches data ms new_text replaced_count
      | Some v \<Rightarrow>
          (case py_str v of
             Inl e \<Rightarrow> Inl e
           | Inr s \<Rightarrow>
               replace_matches data ms (str_replace new_text (placeholder m) s)
                 (replaced_count + 1)))"

section \<open>The document\<close>

text \<open>
  The presentation object of python-pptx, as far as the generator reads and writes it: a
  presentation is a sequence of slides, a slide a sequence of shapes; a shape may have a
  text frame (\<^verbatim>\<open>hasattr(shape, "text_frame")\<close>) and may hold a table
  (\<^verbatim>\<open>shape.has_table\<close>); a text frame is a sequence of paragraphs, a table a sequence
  of rows of cells, and a cell has a text frame. A paragraph is represented by its text,
  in which the library renders a line break as a vertical tab.

  \<^item> \<^verbatim>\<open>text_frame.text\<close> and \<^verbatim>\<open>cell.text\<close> read the paragraphs' texts joined by
    line feeds;
  \<^item> assigning \<^verbatim>\<open>text_frame.text\<close> replaces the paragraphs by one paragraph for each
    piece of \<^verbatim>\<open>text.split("\n")\<close>, filled with that piece;
  \<^item> assigning \<^verbatim>\<open>paragraph.text\<close> replaces the content of that paragraph by the
    assigned text;
  \<^item> filling a paragraph with a text (\<^verbatim>\<open>append_text\<close> of the library) turns every line
    feed and every vertical tab into a line break and stores the pieces between them as
    runs; in a run every control character below \<^verbatim>\<open>0x20\<close> other than the tab is stored
    as the seven characters \<^verbatim>\<open>_xHHHH_\<close> (\<^verbatim>\<open>"_x%04X_" % ord(c)\<close>), which is how it
    reads back: a carriage return is stored as \<^verbatim>\<open>_x000D_\<close>.

  The library is not part of the repository; these operations follow its behaviour.
  Runs and their formatting are not represented.
\<close>

type_synonym paragraph_text = string
type_synonym text_frame = "paragraph_text list"
type_synonym cell = text_frame
type_synonym table = "cell list list"

record shape =
  text_frame :: "text_frame option"
  table :: "table option"

type_synonym slide = "shape list"
type_synonym presentation = "slide list"

definition text_frame_text :: "text_frame \<Rightarrow> string" where
  "text_frame_text tf = join_nl tf"

definition needs_escape :: "char \<Rightarrow> bool" where
  "needs_escape c = ((of_char c :: nat) < 32 \<and> c \<noteq> CHR 0x09 \<and> c \<noteq> LF \<and> c \<noteq> VT)"

definition hex_digit :: "nat \<Rightarrow> char" where
  "hex_digit d = ''0123456789ABCDEF'' ! d"

definition escape_char :: "char \<Rightarrow> string" where
  "escape_char c =
     (if needs_escape c
      then ''_x00'' @ [hex_digit ((of_char c :: nat) div 16), hex_digit ((of_char c :: nat) mod 16)]
             @ ''_''
      else [c])"

definition escape_text :: "string \<Rightarrow> string" where
  "escape_text s = concat (map escape_char s)"

definition append_text :: "string \<Rightarrow> paragraph_text" where
  "append_text text = escape_text (map (\<lambda>c. if c = LF then VT else c) text)"

definition set_text_frame_text :: "string \<Rightarrow> text_frame" where
  "set_text_frame_text text = map append_text (split_nl text)"

definition set_paragraph_text :: "string \<Rightarrow> paragraph_text" where
  "set_paragraph_text text = append_text text"

text \<open>
  A loop \<^verbatim>\<open>for x in xs: replaced_count += f(x)\<close> whose body mutates \<open>x\<close> in place
  and may raise: the elements visited before the exception keep their new content, the
  others are untouched.
\<close>

fun for_each ::
  "('a \<Rightarrow> 'a \<times> (error + nat)) \<Rightarrow> 'a list \<Rightarrow> 'a list \<times> (error + nat)" where
  "for_each f [] = ([], Inr 0)"
| "for_each f (x # xs) =
     (case f x of
        (x', Inl e) \<Rightarrow> (x' # xs, Inl e)
      | (x', Inr n) \<Rightarrow>
          (case for_each f xs of
             (xs', Inl e) \<Rightarrow> (x' # xs', Inl e)
           | (xs', Inr k) \<Rightarrow> (x' # xs', Inr (n + k))))"

text \<open>The body of the paragraph loops of \<^verbatim>\<open>_replace_in_text_frame\<close> and \<^verbatim>\<open>_replace_in_table\<close>.\<close>

definition replace_in_paragraph ::
  "subst_data \<Rightarrow> paragraph_text \<Rightarrow> paragraph_text \<times> (error + nat)" where
  "replace_in_paragraph data p =
     (let original_text = p in
      case replace_matches data (findall original_text) original_text 0 of
        Inl e \<Rightarrow> (p, Inl e)
      | Inr (new_text, n) \<Rightarrow>
          (if new_text \<noteq> original_text then set_paragraph_text new_text else p, Inr n))"

text \<open>
  \<^verbatim>\<open>_replace_in_text_frame\<close>: nothing for an empty text; otherwise a pass over the
  text of the whole frame, written back to the frame when it changed, then a pass over
  each paragraph of the frame as it is by then.
\<close>

definition replace_in_text_frame :: "text_frame \<Rightarrow> subst_data \<Rightarrow> text_frame \<times> (error + nat)" where
  "replace_in_text_frame tf data =
     (let original_text = text_frame_text tf in
      if original_text = [] then (tf, Inr 0)
      else
        (case replace_matches data (findall original_text) original_text 0 of
           Inl e \<Rightarrow> (tf, Inl e)
         | Inr (new_text, n) \<Rightarrow>
             (let tf' = (if new_text \<noteq> original_text then set_text_frame_text new_text else tf)
              in case for_each (replace_in_paragraph data) tf' of
                   (tf'', Inl e) \<Rightarrow> (tf'', Inl e)
                 | (tf'', Inr k) \<Rightarrow> (tf'', Inr (n + k)))))"

text \<open>\<^verbatim>\<open>_replace_in_table\<close>: every paragraph of every cell of every row.\<close>

definition replace_in_table :: "table \<Rightarrow> subst_data \<Rightarrow> table \<times> (error + nat)" where
  "replace_in_table tbl data = for_each (for_each (for_each (replace_in_paragraph data))) tbl"

text \<open>The body of the shape loop of \<^verbatim>\<open>replace_placeholders\<close>.\<close>

definition replace_in_shape :: "subst_data \<Rightarrow> shape \<Rightarrow> shape \<times> (error + nat)" where
  "replace_in_shape data sh =
     (case (case text_frame sh of
              None \<Rightarrow> (sh, Inr 0)
            | Some tf \<Rightarrow>
                (case replace_in_text_frame tf data of
                   (tf', r) \<Rightarrow> (sh\<lparr>text_frame := Some tf'\<rparr>, r))) of
        (sh', Inl e) \<Rightarrow> (sh', Inl e)
      | (sh', Inr n) \<Rightarrow>
          (case table sh' of
             None \<Rightarrow> (sh', Inr n)
           | Some tbl \<Rightarrow>
               (case replace_in_table tbl data of
                  (tbl', Inl e) \<Rightarrow> (sh'\<lparr>table := Some tbl'\<rparr>, Inl e)
                | (tbl', Inr k) \<Rightarrow> (sh'\<lparr>table := Some tbl'\<rparr>, Inr (n + k)))))"

section \<open>The generator\<close>

text \<open>
  The fields of \<^verbatim>\<open>PPTXGenerator\<close> that its operations read and write. Templates live
  in a file system: a path is absent, holds a well-formed presentation, or holds
  something \<^verbatim>\<open>Presentation(path)\<close> rejects; writing under a path of \<open>read_only\<close> fails.
\<close>

record generator =
  presentation :: "presentation option"
  template_path :: "string option"

datatype stored_file = PptxFile presentation | OtherFile

record filesystem =
  files :: "string \<rightharpoonup> stored_file"
  read_only :: "string set"

text \<open>What the caller of a method observes: a returned value or an exception.\<close>

datatype 'a outcome = Returns 'a | Raises error

text \<open>
  Every public method wraps its body in \<^verbatim>\<open>try: ... except Exception as e:\<close>, logs the
  error and returns a fixed value.
\<close>

definition except_Exception :: "error + 'a \<Rightarrow> 'a \<Rightarrow> 'a outcome" where
  "except_Exception r sentinel = (case r of Inl e \<Rightarrow> Returns sentinel | Inr v \<Rightarrow> Returns v)"

definition generator_init :: generator where
  "generator_init = \<lparr>presentation = None, template_path = None\<rparr>"

definition extract_placeholders :: "string \<Rightarrow> string set \<Rightarrow> string set" where
  "extract_placeholders text placeholders =
     (if text = [] then placeholders else placeholders \<union> set (findall text))"

definition shape_placeholders :: "shape \<Rightarrow> string set \<Rightarrow> string set" where
  "shape_placeholders sh placeholders =
     (let ps1 = (case text_frame sh of
                   None \<Rightarrow> placeholders
                 | Some tf \<Rightarrow> extract_placeholders (text_frame_text tf) placeholders)
      in case table sh of
           None \<Rightarrow> ps1
         | Some tbl \<Rightarrow>
             fold (\<lambda>row acc. fold (\<lambda>c acc'. extract_placeholders (text_frame_text c) acc') row acc)
               tbl ps1)"

definition presentation_placeholders :: "presentation \<Rightarrow> string set" where
  "presentation_placeholders prs = fold (\<lambda>sl acc. fold shape_placeholders sl acc) prs {}"

text \<open>\<^verbatim>\<open>_count_placeholders\<close>, which \<^verbatim>\<open>load_template\<close> only logs.\<close>

definition count_placeholders :: "generator \<Rightarrow> nat" where
  "count_placeholders g =
     (case presentation g of None \<Rightarrow> 0 | Some prs \<Rightarrow> card (presentation_placeholders prs))"

definition load_template_body ::
  "filesystem \<Rightarrow> generator \<Rightarrow> string \<Rightarrow> generator \<times> (error + bool)" where
  "load_template_body fs g path =
     (case files fs path of
        None \<Rightarrow> (g, Inl FileNotFoundError)
      | Some OtherFile \<Rightarrow> (g, Inl PackageNotFoundError)
      | Some (PptxFile prs) \<Rightarrow>
          (g\<lparr>presentation := Some prs, template_path := Some path\<rparr>, Inr True))"

definition load_template :: "filesystem \<Rightarrow> generator \<Rightarrow> string \<Rightarrow> generator \<times> bool outcome" where
  "load_template fs g path =
     (case load_template_body fs g path of (g', r) \<Rightarrow> (g', except_Exception r False))"

definition replace_placeholders_body :: "generator \<Rightarrow> subst_data \<Rightarrow> generator \<times> (error + nat)" where
  "replace_placeholders_body g data =
     (case presentation g of
        None \<Rightarrow> (g, Inl ValueError)
      | Some prs \<Rightarrow>
          (case for_each (for_each (replace_in_shape data)) prs of
             (prs', r) \<Rightarrow> (g\<lparr>presentation := Some prs'\<rparr>, r)))"

definition replace_placeholders :: "generator \<Rightarrow> subst_data \<Rightarrow> generator \<times> nat outcome" where
  "replace_placeholders g data =
     (case replace_placeholders_body g data of (g', r) \<Rightarrow> (g', except_Exception r 0))"

definition get_placeholders_list_body :: "generator \<Rightarrow> generator \<times> (error + string list)" where
  "get_placeholders_list_body g =
     (case presentation g of
        None \<Rightarrow> (g, Inl ValueError)
      | Some prs \<Rightarrow> (g, Inr (sorted_list_of_set (presentation_placeholders prs))))"

definition get_placeholders_list :: "generator \<Rightarrow> generator \<times> string list outcome" where
  "get_placeholders_list g =
     (case get_placeholders_list_body g of (g', r) \<Rightarrow> (g', except_Exception r []))"

definition save_presentation_body ::
  "filesystem \<Rightarrow> generator \<Rightarrow> string \<Rightarrow> filesystem \<times> (error + bool)" where
  "save_presentation_body fs g output_path =
     (case presentation g of
        None \<Rightarrow> (fs, Inl ValueError)
      | Some prs \<Rightarrow>
          (if output_path \<in> read_only fs then (fs, Inl OSError)
           else (fs\<lparr>files := (files fs)(output_path \<mapsto> PptxFile prs)\<rparr>, Inr True)))"

definition save_presentation :: "filesystem \<Rightarrow> generator \<Rightarrow> string \<Rightarrow> filesystem \<times> bool outcome" where
  "save_presentation fs g output_path =
     (case save_presentation_body fs g output_path of
        (fs', r) \<Rightarrow> (fs', except_Exception r False))"

section \<open>Notions used to state the properties\<close>

text \<open>
  The texts the generator scans in a presentation: for each shape the text of its text
  frame, then the text of each cell of its table.
\<close>

definition shape_texts :: "shape \<Rightarrow> string list" where
  "shape_texts sh =
     (case text_frame sh of None \<Rightarrow> [] | Some tf \<Rightarrow> [text_frame_text tf]) @
     (case table sh of None \<Rightarrow> [] | Some tbl \<Rightarrow> map text_frame_text (concat tbl))"

definition presentation_texts :: "presentation \<Rightarrow> string list" where
  "presentation_texts prs = concat (map shape_texts (concat prs))"

text \<open>The placeholder names the pattern finds in a list of texts.\<close>

definition found_names :: "string list \<Rightarrow> string set" where
  "found_names texts = \<Union> (set (map (\<lambda>t. set (findall t)) texts))"

text \<open>Example states: a generator with a one-frame template loaded, and a storage.\<close>

definition single_frame :: "string \<Rightarrow> generator" where
  "single_frame t =
     \<lparr>presentation = Some [[\<lparr>text_frame = Some [t], table = None\<rparr>]],
      template_path = Some ''templates/relatorio.pptx''\<rparr>"

definition loaded_example :: generator where
  "loaded_example = single_frame ''Total: {{total}}''"

definition storage_example :: filesystem where
  "storage_example =
     \<lparr>files = [''templates/relatorio.pptx'' \<mapsto>
                 PptxFile [[\<lparr>text_frame = Some [''Total: {{total}}''], table = None\<rparr>]],
               ''templates/notes.txt'' \<mapsto> OtherFile],
      read_only = {''/proc/out.pptx''}\<rparr>"

definition scenario_E :: generator where
  "scenario_E =
     \<lparr>presentation =
        Some [[\<lparr>text_frame = Some [''{{x}}''], table = None\<rparr>,
               \<lparr>text_frame = None, table = Some [[[''{{y}}'']]]\<rparr>]],
      template_path = Some ''templates/relatorio.pptx''\<rparr>"

definition scenario_D :: "string \<Rightarrow> generator" where
  "scenario_D t =
     \<lparr>presentation =
        Some [[\<lparr>text_frame = None,
                table = Some [[[t], [''2024'']], [[''Total''], [''{{total}}'']]]\<rparr>]],
      template_path = Some ''templates/relatorio.pptx''\<rparr>"

subsection \<open>The substitution the specification describes\<close>

text \<open>
  The text a value is rendered to, for a name of the substitution data whose value
  \<^verbatim>\<open>str\<close> converts.
\<close>

definition value_text :: "subst_data \<Rightarrow> string \<Rightarrow> string option" where
  "value_text data name =
     (case data name of
        None \<Rightarrow> None
      | Some v \<Rightarrow> (case py_str v of Inl e \<Rightarrow> None | Inr s \<Rightarrow> Some s))"

text \<open>
  The invariant of the specification, read as one scan from the left: every occurrence
  the pattern matches whose name is a key is replaced by the text of its value; every
  other matched occurrence and every other character is copied as it is. This is the
  reference the generator's loop of \<^verbatim>\<open>str.replace\<close> calls is compared with.
\<close>

function substitute_text :: "subst_data \<Rightarrow> string \<Rightarrow> string" where
  "substitute_text data [] = []"
| "substitute_text data (c # cs) =
     (case match_at (c # cs) of
        Some (name, rest) \<Rightarrow>
          (case value_text data name of
             Some s \<Rightarrow> s
           | None \<Rightarrow> placeholder name) @ substitute_text data rest
      | None \<Rightarrow> c # substitute_text data cs)"
  by pat_completeness auto
termination
  by (relation "measure (\<lambda>(data, s). length s)") (auto dest: match_at_shorter)

text \<open>The number of matched occurrences in a text whose name is a key.\<close>

definition matched_count :: "subst_data \<Rightarrow> string \<Rightarrow> nat" where
  "matched_count data t = length (filter (\<lambda>name. name \<in> dom data) (findall t))"

text \<open>
  The substituted document: the text of a text frame is substituted as a whole and
  assigned to the frame; in a table, each paragraph of each cell is substituted and
  assigned to the paragraph.
\<close>

definition substitute_shape :: "subst_data \<Rightarrow> shape \<Rightarrow> shape" where
  "substitute_shape data sh =
     sh\<lparr>text_frame :=
          map_option (\<lambda>tf. set_text_frame_text (substitute_text data (text_frame_text tf)))
            (text_frame sh),
        table :=
          map_option (map (map (map (\<lambda>p. set_paragraph_text (substitute_text data p)))))
            (table sh)\<rparr>"

definition substitute_presentation :: "subst_data \<Rightarrow> presentation \<Rightarrow> presentation" where
  "substitute_presentation data prs = map (map (substitute_shape data)) prs"

definition shape_count :: "subst_data \<Rightarrow> shape \<Rightarrow> nat" where
  "shape_count data sh = sum_list (map (matched_count data) (shape_texts sh))"

definition matched_occurrences :: "subst_data \<Rightarrow> presentation \<Rightarrow> nat" where
  "matched_occurrences data prs = sum_list (map (matched_count data) (presentation_texts prs))"

subsection \<open>Templates without nested braces\<close>

definition brace_free :: "string \<Rightarrow> bool" where
  "brace_free s = (CHR ''{'' \<notin> set s \<and> CHR ''}'' \<notin> set s)"

text \<open>
  A text is plain when braces occur in it only as the delimiters of placeholders
  \<^verbatim>\<open>{{name}}\<close> whose name has no brace and no line feed. The flag tells whether the scan
  is inside a name.
\<close>

fun plain_text :: "bool \<Rightarrow> string \<Rightarrow> bool" where
  "plain_text inside [] = (\<not> inside)"
| "plain_text False (c # cs) =
     (if c = CHR ''{'' then (case cs of [] \<Rightarrow> False | d # ds \<Rightarrow> d = CHR ''{'' \<and> plain_text True ds)
      else c \<noteq> CHR ''}'' \<and> plain_text False cs)"
| "plain_text True (c # cs) =
     (if c = CHR ''}'' then (case cs of [] \<Rightarrow> False | d # ds \<Rightarrow> d = CHR ''}'' \<and> plain_text False ds)
      else c \<noteq> CHR ''{'' \<and> c \<noteq> LF \<and> plain_text True cs)"

text \<open>A text in which the library escapes no character when it stores it.\<close>

definition no_escape :: "string \<Rightarrow> bool" where
  "no_escape s = list_all (\<lambda>c. \<not> needs_escape c) s"

text \<open>
  In a document read by the library a paragraph's text has no line feed (a line break
  reads as a vertical tab) and a text frame has at least one paragraph. A plain
  paragraph moreover holds no character the library would escape on assignment (in a
  document read from a file, that could only be a carriage return).
\<close>

definition plain_paragraph :: "paragraph_text \<Rightarrow> bool" where
  "plain_paragraph p = (plain_text False p \<and> LF \<notin> set p \<and> no_escape p)"

definition plain_shape :: "shape \<Rightarrow> bool" where
  "plain_shape sh =
     ((case text_frame sh of None \<Rightarrow> True | Some tf \<Rightarrow> tf \<noteq> [] \<and> list_all plain_paragraph tf) \<and>
      (case table sh of None \<Rightarrow> True
       | Some tbl \<Rightarrow> list_all (list_all (list_all plain_paragraph)) tbl))"

definition plain_presentation :: "presentation \<Rightarrow> bool" where
  "plain_presentation prs = list_all (list_all plain_shape) prs"

text \<open>Substitution data whose values all convert to texts without braces.\<close>

definition plain_values :: "subst_data \<Rightarrow> bool" where
  "plain_values data =
     (\<forall>name v. data name = Some v \<longrightarrow> (\<exists>s. py_str v = Inr s \<and> brace_free s))"

subsection \<open>What a call leaves alone\<close>

text \<open>
  A text frame (or the text frame of a cell) is kept when it is unchanged provided the
  pattern finds no key of the data in its text; a shape is kept when it keeps having or
  not having a text frame and a table, its table keeps its rows and cells, and its
  frame and cells are kept. A shape has no other content in this model.
\<close>

definition frame_kept :: "subst_data \<Rightarrow> text_frame \<Rightarrow> text_frame \<Rightarrow> bool" where
  "frame_kept data tf tf' =
     ((\<forall>m\<in>set (findall (text_frame_text tf)). data m = None) \<longrightarrow> tf' = tf)"

definition shape_kept :: "subst_data \<Rightarrow> shape \<Rightarrow> shape \<Rightarrow> bool" where
  "shape_kept data sh sh' =
     (rel_option (frame_kept data) (text_frame sh) (text_frame sh') \<and>
      rel_option (list_all2 (list_all2 (frame_kept data))) (table sh) (table sh'))"

subsection \<open>Segments\<close>

text \<open>
  A plain text is a sequence of literal pieces and placeholders; the proofs about
  \<^verbatim>\<open>findall\<close> and \<^verbatim>\<open>str.replace\<close> work on this view.
\<close>

datatype seg = Lit string | Tok string

fun render_seg :: "seg \<Rightarrow> string" where
  "render_seg (Lit s) = s"
| "render_seg (Tok n) = placeholder n"

definition render :: "seg list \<Rightarrow> string" where
  "render segs = concat (map render_seg segs)"

fun valid_seg :: "seg \<Rightarrow> bool" where
  "valid_seg (Lit s) = brace_free s"
| "valid_seg (Tok n) = (brace_free n \<and> LF \<notin> set n)"

fun toks :: "seg list \<Rightarrow> string list" where
  "toks [] = []"
| "toks (Lit s # segs) = toks segs"
| "toks (Tok n # segs) = n # toks segs"

fun fill_seg :: "(string \<Rightarrow> string option) \<Rightarrow> seg \<Rightarrow> seg" where
  "fill_seg f (Lit s) = Lit s"
| "fill_seg f (Tok n) = (case f n of None \<Rightarrow> Tok n | Some s \<Rightarrow> Lit s)"

fun stored_seg :: "(string \<Rightarrow> string) \<Rightarrow> seg \<Rightarrow> seg" where
  "stored_seg f (Lit s) = Lit (f s)"
| "stored_seg f (Tok n) = Tok n"

fun clean_seg :: "seg \<Rightarrow> bool" where
  "clean_seg (Lit s) = True"
| "clean_seg (Tok n) = no_escape n"

text \<open>Characters that are neither a brace nor a line feed and that the library stores as they are.\<close>

definition safe_char :: "char \<Rightarrow> bool" where
  "safe_char c = (c \<noteq> CHR ''{'' \<and> c \<noteq> CHR ''}'' \<and> c \<noteq> LF \<and> \<not> needs_escape c)"

section \<open>The pattern matcher\<close>

lemma lazy_group_closes:
  "CHR ''}'' \<notin> set n \<Longrightarrow> LF \<notin> set n \<Longrightarrow> lazy_group (n @ ''}}'' @ r) = Some (n, r)"
  by (induction n) auto

lemma match_at_placeholder:
  "CHR ''}'' \<notin> set n \<Longrightarrow> LF \<notin> set n \<Longrightarrow> match_at (placeholder n @ r) = Some (n, r)"
  using lazy_group_closes[of n r] by (simp add: match_at_def placeholder_def)

lemma findall_placeholder:
  assumes "CHR ''}'' \<notin> set n" "LF \<notin> set n"
  shows "findall (placeholder n) = [n]"
proof -
  have "placeholder n = CHR ''{'' # CHR ''{'' # n @ ''}}''" by (simp add: placeholder_def)
  moreover have "match_at (placeholder n) = Some (n, [])"
    using match_at_placeholder[OF assms, of "[]"] by simp
  ultimately show ?thesis by simp
qed

text \<open>
  What the group accepts: the shortest run of characters other than the line feed that is
  followed by two closing braces. The run may be empty and may contain braces.
\<close>

lemma lazy_group_iff:
  "lazy_group s = Some (n, r) \<longleftrightarrow>
     s = n @ ''}}'' @ r \<and> LF \<notin> set n \<and> (\<forall>i<length n. take 2 (drop i s) \<noteq> ''}}'')"
proof (induction s arbitrary: n)
  case Nil
  then show ?case by simp
next
  case (Cons c cs)
  show ?case
  proof (cases "take 2 (c # cs) = ''}}''")
    case True
    have "n = [] \<and> r = drop 2 (c # cs) \<longleftrightarrow>
       c # cs = n @ ''}}'' @ r \<and> LF \<notin> set n \<and> (\<forall>i<length n. take 2 (drop i (c # cs)) \<noteq> ''}}'')"
    proof (cases n)
      case Nil
      with True show ?thesis
        by (metis append_Nil append_take_drop_id same_append_eq empty_iff list.set(1) list.size(3) not_less_zero)
    next
      case (Cons a list)
      with True show ?thesis by auto
    qed
    with True show ?thesis by auto
  next
    case False
    show ?thesis
    proof (cases n)
      case Nil
      with False show ?thesis by (auto split: option.splits)
    next
      case (Cons a n')
      have "(\<forall>i<length (a # n'). take 2 (drop i (c # cs)) \<noteq> ''}}'') \<longleftrightarrow>
            (\<forall>i<length n'. take 2 (drop i cs) \<noteq> ''}}'')"
        using False by (auto simp: less_Suc_eq_0_disj)
      with Cons False Cons.IH[of n'] show ?thesis
        by (auto split: option.splits)
    qed
  qed
qed

text \<open>
  C3, as the code has it. The pattern matches \<^verbatim>\<open>{{\<close>, then the shortest run of zero or
  more characters other than the line feed, then \<^verbatim>\<open>}}\<close>; so \<^verbatim>\<open>{{a}}{{b}}\<close> yields the
  two names \<open>a\<close> and \<open>b\<close>, and for every name \<open>n\<close> with no closing brace and no line
  feed, extracting the placeholders of \<^verbatim>\<open>"prefix {{" + n + "}} suffix"\<close> yields exactly
  the set \<open>{n}\<close>.
\<close>

theorem findall_shortest_match:
  assumes "CHR ''}'' \<notin> set n" and "LF \<notin> set n"
  shows "(match_at s = Some (name, rest) \<longleftrightarrow>
            s = ''{{'' @ name @ ''}}'' @ rest \<and> LF \<notin> set name \<and>
            (\<forall>i<length name. take 2 (drop i (name @ ''}}'' @ rest)) \<noteq> ''}}'')) \<and>
         findall ''{{a}}{{b}}'' = [''a'', ''b''] \<and>
         extract_placeholders (''prefix {{'' @ n @ ''}} suffix'') {} = {n}"
proof (intro conjI)
  have "take 2 s = ''{{'' \<and> drop 2 s = name @ ''}}'' @ rest \<longleftrightarrow> s = ''{{'' @ name @ ''}}'' @ rest"
    by (metis append_take_drop_id append_eq_conv_conj length_Cons list.size(3) numeral_2_eq_2)
  then show "match_at s = Some (name, rest) \<longleftrightarrow>
            s = ''{{'' @ name @ ''}}'' @ rest \<and> LF \<notin> set name \<and>
            (\<forall>i<length name. take 2 (drop i (name @ ''}}'' @ rest)) \<noteq> ''}}'')"
    unfolding match_at_def using lazy_group_iff[of "drop 2 s" name rest] by auto
next
  show "findall ''{{a}}{{b}}'' = [''a'', ''b'']" by (simp add: match_at_def)
next
  have m: "match_at (''{{'' @ n @ ''}} suffix'') = Some (n, '' suffix'')"
    using match_at_placeholder[of n "'' suffix''"] assms by (simp add: placeholder_def)
  have "findall (''prefix {{'' @ n @ ''}} suffix'') = findall (''{{'' @ n @ ''}} suffix'')"
    by (simp add: match_at_def)
  also have "\<dots> = n # findall '' suffix''"
    using m by simp
  also have "\<dots> = [n]" by (simp add: match_at_def)
  finally show "extract_placeholders (''prefix {{'' @ n @ ''}} suffix'') {} = {n}"
    by (simp add: extract_placeholders_def)
qed

theorem findall_shortest_match_witness:
  "CHR ''}'' \<notin> set ''total_2024'' \<and> LF \<notin> set ''total_2024'' \<and>
   match_at ''{{a}b}} c}}'' = Some (''a}b'', '' c}}'') \<and>
   extract_placeholders ''prefix {{total_2024}} suffix'' {} = {''total_2024''}"
  using findall_shortest_match[of "''total_2024''" "''{{a}b}} c}}''" "''a}b''" "'' c}}''"]
  by (simp add: match_at_def)

text \<open>
  C3, as the claim states it, fails: the name may be empty, it may contain a closing
  brace, and a name with a line feed (and no closing brace) is not found at all.
\<close>

theorem pattern_counterexample:
  "findall ''{{}}'' = [[]] \<and> findall ''{{a}b}}'' = [''a}b''] \<and>
   CHR ''}'' \<notin> set [CHR ''a'', LF, CHR ''b''] \<and>
   extract_placeholders (''prefix {{'' @ [CHR ''a'', LF, CHR ''b''] @ ''}} suffix'') {} = {} \<and>
   extract_placeholders (''prefix {{'' @ [CHR ''a'', LF, CHR ''b''] @ ''}} suffix'') {}
     \<noteq> {[CHR ''a'', LF, CHR ''b'']}"
  by (simp add: match_at_def extract_placeholders_def)

section \<open>Listing the placeholders\<close>

lemma found_names_simps [simp]:
  "found_names [] = {}"
  "found_names (t # ts) = set (findall t) \<union> found_names ts"
  "found_names (ts @ us) = found_names ts \<union> found_names us"
  by (auto simp: found_names_def)

lemma finite_found_names: "finite (found_names ts)"
  by (simp add: found_names_def)

lemma extract_placeholders_eq: "extract_placeholders t P = P \<union> set (findall t)"
  by (simp add: extract_placeholders_def)

lemma fold_cells_placeholders:
  "fold (\<lambda>c acc. extract_placeholders (text_frame_text c) acc) row P =
     P \<union> found_names (map text_frame_text row)"
  by (induction row arbitrary: P) (auto simp: extract_placeholders_eq)

lemma fold_rows_placeholders:
  "fold (\<lambda>row acc. fold (\<lambda>c acc'. extract_placeholders (text_frame_text c) acc') row acc) tbl P =
     P \<union> found_names (map text_frame_text (concat tbl))"
  by (induction tbl arbitrary: P) (auto simp: fold_cells_placeholders)

lemma shape_placeholders_eq: "shape_placeholders sh P = P \<union> found_names (shape_texts sh)"
  by (auto simp: shape_placeholders_def shape_texts_def extract_placeholders_eq
        fold_rows_placeholders Let_def split: option.splits)

lemma fold_shapes_placeholders:
  "fold shape_placeholders sl P = P \<union> found_names (concat (map shape_texts sl))"
  by (induction sl arbitrary: P) (auto simp: shape_placeholders_eq)

lemma fold_slides_placeholders:
  "fold (\<lambda>sl acc. fold shape_placeholders sl acc) prs P =
     P \<union> found_names (concat (map shape_texts (concat prs)))"
  by (induction prs arbitrary: P) (auto simp: fold_shapes_placeholders)

lemma presentation_placeholders_eq:
  "presentation_placeholders prs = found_names (presentation_texts prs)"
  by (simp add: presentation_placeholders_def presentation_texts_def fold_slides_placeholders)

text \<open>
  C4. With a presentation loaded, \<^verbatim>\<open>get_placeholders_list\<close> leaves the generator as it
  is and returns the names found in the text of every text frame and of every table
  cell, each name once, in ascending lexicographic order. The witness is scenario E:
  \<^verbatim>\<open>{{x}}\<close> in a text shape and \<^verbatim>\<open>{{y}}\<close> in a table cell give \<^verbatim>\<open>["x", "y"]\<close>.
\<close>

theorem get_placeholders_list_sorted_distinct:
  assumes "presentation g = Some prs"
  shows "\<exists>names. get_placeholders_list g = (g, Returns names) \<and>
           sorted names \<and> distinct names \<and>
           set names = found_names (presentation_texts prs)"
proof -
  let ?names = "sorted_list_of_set (presentation_placeholders prs)"
  have fin: "finite (presentation_placeholders prs)"
    by (simp add: presentation_placeholders_eq finite_found_names)
  have "get_placeholders_list g = (g, Returns ?names)"
    using assms
    by (simp add: get_placeholders_list_def get_placeholders_list_body_def except_Exception_def)
  moreover have "sorted ?names" "distinct ?names" by simp_all
  moreover have "set ?names = found_names (presentation_texts prs)"
    using fin by (simp add: presentation_placeholders_eq)
  ultimately show ?thesis by blast
qed

theorem get_placeholders_list_scenario_E:
  "presentation scenario_E \<noteq> None \<and>
   get_placeholders_list scenario_E = (scenario_E, Returns [''x'', ''y''])"
proof -
  obtain names where n: "get_placeholders_list scenario_E = (scenario_E, Returns names)"
    "sorted names" "distinct names"
    "set names = found_names (presentation_texts (the (presentation scenario_E)))"
    using get_placeholders_list_sorted_distinct[of scenario_E "the (presentation scenario_E)"]
    by (auto simp: scenario_E_def)
  have "set names = {''x'', ''y''}"
    using n(4) by (auto simp: scenario_E_def presentation_texts_def shape_texts_def
        text_frame_text_def match_at_def)
  moreover have "sorted [''x'', ''y'']" by simp
  ultimately have "names = [''x'', ''y'']"
    using n(2,3) sorted_distinct_set_unique[of names "[''x'', ''y'']"] by simp
  with n(1) show ?thesis by (simp add: scenario_E_def)
qed

section \<open>Errors and what the caller sees\<close>

lemma except_Exception_Returns: "\<exists>v. except_Exception r s = Returns v"
  by (cases r) (simp_all add: except_Exception_def)

lemma except_Exception_Inl: "except_Exception (Inl e) s = Returns s"
  by (simp add: except_Exception_def)




text \<open>
  C7, as the code has it. \<^verbatim>\<open>load_template\<close> returns \<^verbatim>\<open>True\<close> when the file loads, and
  then the generator holds the parsed presentation and the path; it returns \<^verbatim>\<open>False\<close>,
  with the generator unchanged, both when the path does not exist and when the file
  cannot be parsed.
\<close>

theorem load_template_outcomes:
  "(files fs path = Some (PptxFile prs) \<longrightarrow>
      load_template fs g path =
        (g\<lparr>presentation := Some prs, template_path := Some path\<rparr>, Returns True)) \<and>
   (files fs path = None \<longrightarrow> load_template fs g path = (g, Returns False)) \<and>
   (files fs path = Some OtherFile \<longrightarrow> load_template fs g path = (g, Returns False))"
  by (auto simp: load_template_def load_template_body_def except_Exception_def)

theorem load_template_outcomes_witness:
  "load_template storage_example generator_init ''templates/relatorio.pptx'' =
     (loaded_example, Returns True) \<and>
   load_template storage_example generator_init ''templates/missing.pptx'' =
     (generator_init, Returns False) \<and>
   load_template storage_example generator_init ''templates/notes.txt'' =
     (generator_init, Returns False)"
  using load_template_outcomes[of storage_example "''templates/relatorio.pptx''"
      "[[\<lparr>text_frame = Some [''Total: {{total}}''], table = None\<rparr>]]" generator_init]
    load_template_outcomes[of storage_example "''templates/missing.pptx''" "[]" generator_init]
    load_template_outcomes[of storage_example "''templates/notes.txt''" "[]" generator_init]
  by (simp add: storage_example_def loaded_example_def single_frame_def generator_init_def)

text \<open>
  C7, as the claim states it, fails: the two failures raise different exceptions inside
  the method, but the caller gets the same result for a missing path and for a file that
  does not parse, and no exception.
\<close>

theorem load_template_failures_indistinguishable:
  "load_template_body storage_example loaded_example ''templates/missing.pptx'' =
     (loaded_example, Inl FileNotFoundError) \<and>
   load_template_body storage_example loaded_example ''templates/notes.txt'' =
     (loaded_example, Inl PackageNotFoundError) \<and>
   load_template storage_example loaded_example ''templates/missing.pptx'' =
     load_template storage_example loaded_example ''templates/notes.txt'' \<and>
   snd (load_template storage_example loaded_example ''templates/missing.pptx'') =
     Returns False \<and>
   snd (load_template storage_example loaded_example ''templates/missing.pptx'')
     \<noteq> Raises FileNotFoundError \<and>
   snd (load_template storage_example loaded_example ''templates/notes.txt'')
     \<noteq> Raises PackageNotFoundError"
  by (simp add: load_template_def load_template_body_def except_Exception_def
      storage_example_def)

text \<open>
  C9. A failed \<^verbatim>\<open>load_template\<close> changes nothing: when the path does not exist or the
  file does not parse, the generator (its presentation and its template path) is the one
  before the call, and the method returns \<^verbatim>\<open>False\<close>.
\<close>

theorem load_template_failure_atomic:
  assumes "files fs path = None \<or> files fs path = Some OtherFile"
  shows "load_template fs g path = (g, Returns False)"
  using assms by (auto simp: load_template_def load_template_body_def except_Exception_def)

theorem load_template_failure_atomic_witness:
  "files storage_example ''templates/missing.pptx'' = None \<and>
   load_template storage_example loaded_example ''templates/missing.pptx'' =
     (loaded_example, Returns False) \<and>
   files storage_example ''templates/notes.txt'' = Some OtherFile \<and>
   load_template storage_example loaded_example ''templates/notes.txt'' =
     (loaded_example, Returns False) \<and>
   presentation loaded_example \<noteq> None"
  using load_template_failure_atomic[of storage_example "''templates/missing.pptx''" loaded_example]
    load_template_failure_atomic[of storage_example "''templates/notes.txt''" loaded_example]
  by (simp add: storage_example_def loaded_example_def single_frame_def)

text \<open>
  C10. \<^verbatim>\<open>load_template\<close>, \<^verbatim>\<open>replace_placeholders\<close>, \<^verbatim>\<open>save_presentation\<close> and
  \<^verbatim>\<open>get_placeholders_list\<close> always return a value to the caller; whenever the body of one
  of them raises, the value is \<^verbatim>\<open>False\<close>, 0, \<^verbatim>\<open>False\<close> and \<^verbatim>\<open>[]\<close> respectively; with no
  presentation loaded, \<^verbatim>\<open>replace_placeholders\<close> returns 0, \<^verbatim>\<open>get_placeholders_list\<close>
  returns \<^verbatim>\<open>[]\<close> and \<^verbatim>\<open>save_presentation\<close> returns \<^verbatim>\<open>False\<close>.
\<close>

theorem public_methods_never_raise:
  "(\<exists>g' b. load_template fs g path = (g', Returns b)) \<and>
   (\<exists>g' n. replace_placeholders g data = (g', Returns n)) \<and>
   (\<exists>fs' b. save_presentation fs g out = (fs', Returns b)) \<and>
   (\<exists>g' names. get_placeholders_list g = (g', Returns names)) \<and>
   (\<forall>e. snd (load_template_body fs g path) = Inl e \<longrightarrow>
        snd (load_template fs g path) = Returns False) \<and>
   (\<forall>e. snd (replace_placeholders_body g data) = Inl e \<longrightarrow>
        snd (replace_placeholders g data) = Returns 0) \<and>
   (\<forall>e. snd (save_presentation_body fs g out) = Inl e \<longrightarrow>
        snd (save_presentation fs g out) = Returns False) \<and>
   (\<forall>e. snd (get_placeholders_list_body g) = Inl e \<longrightarrow>
        snd (get_placeholders_list g) = Returns []) \<and>
   (presentation g = None \<longrightarrow>
        replace_placeholders g data = (g, Returns 0) \<and>
        get_placeholders_list g = (g, Returns []) \<and>
        save_presentation fs g out = (fs, Returns False))"
proof (intro conjI allI impI)
  show "\<exists>g' b. load_template fs g path = (g', Returns b)"
    using except_Exception_Returns[of "snd (load_template_body fs g path)" False]
    by (auto simp: load_template_def split: prod.splits)
  show "\<exists>g' n. replace_placeholders g data = (g', Returns n)"
    using except_Exception_Returns[of "snd (replace_placeholders_body g data)" 0]
    by (auto simp: replace_placeholders_def split: prod.splits)
  show "\<exists>fs' b. save_presentation fs g out = (fs', Returns b)"
    using except_Exception_Returns[of "snd (save_presentation_body fs g out)" False]
    by (auto simp: save_presentation_def split: prod.splits)
  show "\<exists>g' names. get_placeholders_list g = (g', Returns names)"
    using except_Exception_Returns[of "snd (get_placeholders_list_body g)" "[]"]
    by (auto simp: get_placeholders_list_def split: prod.splits)
qed (auto simp: load_template_def replace_placeholders_def save_presentation_def
      get_placeholders_list_def except_Exception_Inl replace_placeholders_body_def
      get_placeholders_list_body_def save_presentation_body_def split: prod.splits)

theorem public_methods_never_raise_witness:
  "snd (load_template_body storage_example loaded_example ''templates/missing.pptx'') =
     Inl FileNotFoundError \<and>
   snd (load_template storage_example loaded_example ''templates/missing.pptx'') = Returns False \<and>
   snd (replace_placeholders_body generator_init [''total'' \<mapsto> PInt 1500]) = Inl ValueError \<and>
   replace_placeholders generator_init [''total'' \<mapsto> PInt 1500] = (generator_init, Returns 0) \<and>
   snd (get_placeholders_list_body generator_init) = Inl ValueError \<and>
   get_placeholders_list generator_init = (generator_init, Returns []) \<and>
   save_presentation storage_example generator_init ''out.pptx'' = (storage_example, Returns False) \<and>
   snd (save_presentation_body storage_example loaded_example ''/proc/out.pptx'') = Inl OSError \<and>
   snd (save_presentation storage_example loaded_example ''/proc/out.pptx'') = Returns False \<and>
   snd (replace_placeholders_body loaded_example [''total'' \<mapsto> PUnprintable]) = Inl TypeError \<and>
   snd (replace_placeholders loaded_example [''total'' \<mapsto> PUnprintable]) = Returns 0"
  using public_methods_never_raise[of storage_example generator_init "''templates/missing.pptx''"
      "[''total'' \<mapsto> PInt 1500]" "''out.pptx''"]
    public_methods_never_raise[of storage_example loaded_example "''templates/missing.pptx''"
      "[''total'' \<mapsto> PUnprintable]" "''/proc/out.pptx''"]
  by (simp add: generator_init_def loaded_example_def single_frame_def storage_example_def
      replace_placeholders_body_def save_presentation_body_def replace_in_shape_def
      load_template_body_def get_placeholders_list_body_def
      replace_in_text_frame_def text_frame_text_def match_at_def)

section \<open>Texts as the library stores them\<close>

lemmas stored_text_defs =
  set_text_frame_text_def set_paragraph_text_def append_text_def escape_text_def
  escape_char_def needs_escape_def hex_digit_def

lemma hex_chars_safe: "list_all safe_char ''0123456789ABCDEF''"
  by (simp add: safe_char_def needs_escape_def)

lemma hex_digit_safe: "d < 16 \<Longrightarrow> safe_char (hex_digit d)"
  using hex_chars_safe unfolding hex_digit_def list_all_length by simp

lemma div16_less: "(n::nat) < 32 \<Longrightarrow> n div 16 < 16"
  by arith

lemma escape_char_safe:
  assumes "needs_escape c"
  shows "list_all safe_char (escape_char c)"
proof -
  have a: "safe_char (hex_digit ((of_char c :: nat) div 16))"
    using assms by (intro hex_digit_safe div16_less) (simp add: needs_escape_def)
  have b: "safe_char (hex_digit ((of_char c :: nat) mod 16))"
    by (intro hex_digit_safe) simp
  have c: "safe_char (CHR ''_'')" "safe_char (CHR ''x'')" "safe_char (CHR ''0'')"
    by (simp_all add: safe_char_def needs_escape_def)
  show ?thesis
    using assms a b c by (simp add: escape_char_def)
qed

lemma escape_char_other: "\<not> needs_escape c \<Longrightarrow> escape_char c = [c]"
  by (simp add: escape_char_def)

lemma needs_escape_special [simp]:
  "\<not> needs_escape (CHR ''{'')" "\<not> needs_escape (CHR ''}'')" "\<not> needs_escape LF"
  "\<not> needs_escape VT"
  by (simp_all add: needs_escape_def)

lemma escape_char_keeps:
  assumes "x \<in> set (escape_char c)" and "x = CHR ''{'' \<or> x = CHR ''}'' \<or> x = LF \<or> needs_escape x"
  shows "x = c \<and> \<not> needs_escape c"
proof (cases "needs_escape c")
  case True
  then have "safe_char x"
    using escape_char_safe[OF True] assms(1) by (simp add: list_all_iff)
  with assms(2) show ?thesis by (auto simp: safe_char_def)
next
  case False
  with assms(1) show ?thesis by (simp add: escape_char_def)
qed

lemma escape_text_simps [simp]:
  "escape_text [] = []"
  "escape_text (c # s) = escape_char c @ escape_text s"
  "escape_text (a @ b) = escape_text a @ escape_text b"
  by (simp_all add: escape_text_def)

lemma escape_text_keeps:
  assumes "x \<in> set (escape_text s)" and "x = CHR ''{'' \<or> x = CHR ''}'' \<or> x = LF \<or> needs_escape x"
  shows "x \<in> set s \<and> \<not> needs_escape x"
  using assms(1)
proof (induction s)
  case Nil
  then show ?case by simp
next
  case (Cons c s)
  then show ?case using escape_char_keeps[OF _ assms(2), of c] by auto
qed

lemma no_escape_simps [simp]:
  "no_escape []"
  "no_escape (c # s) \<longleftrightarrow> \<not> needs_escape c \<and> no_escape s"
  "no_escape (a @ b) \<longleftrightarrow> no_escape a \<and> no_escape b"
  by (auto simp: no_escape_def)

lemma no_escape_placeholder [simp]: "no_escape (placeholder n) \<longleftrightarrow> no_escape n"
  by (simp add: placeholder_def)

lemma escape_text_id: "no_escape s \<Longrightarrow> escape_text s = s"
  by (induction s) (simp_all add: escape_char_other)

lemma no_escape_escape_text: "no_escape (escape_text s)"
  unfolding no_escape_def list_all_iff using escape_text_keeps[of _ s] by blast

lemma brace_free_escape_text: "brace_free s \<Longrightarrow> brace_free (escape_text s)"
  unfolding brace_free_def using escape_text_keeps[of _ s] by blast

lemma LF_escape_text: "LF \<notin> set s \<Longrightarrow> LF \<notin> set (escape_text s)"
  using escape_text_keeps[of LF s] by blast

lemma append_text_append: "append_text (a @ b) = append_text a @ append_text b"
  by (simp add: append_text_def)

lemma append_text_no_LF: "LF \<notin> set s \<Longrightarrow> append_text s = escape_text s"
proof -
  assume "LF \<notin> set s"
  then have "map (\<lambda>c. if c = LF then VT else c) s = s"
    by (induction s) auto
  then show ?thesis by (simp add: append_text_def)
qed

lemma append_text_id: "LF \<notin> set s \<Longrightarrow> no_escape s \<Longrightarrow> append_text s = s"
  by (simp add: append_text_no_LF escape_text_id)

lemma brace_free_append_text: "brace_free s \<Longrightarrow> brace_free (append_text s)"
  unfolding append_text_def by (rule brace_free_escape_text) (auto simp: brace_free_def)

lemma LF_append_text: "LF \<notin> set (append_text s)"
  unfolding append_text_def by (rule LF_escape_text) auto

lemma set_paragraph_text_id: "LF \<notin> set s \<Longrightarrow> no_escape s \<Longrightarrow> set_paragraph_text s = s"
  by (simp add: set_paragraph_text_def append_text_id)

lemma split_nl_pieces: "p \<in> set (split_nl t) \<Longrightarrow> LF \<notin> set p"
proof (induction t arbitrary: p)
  case Nil
  then show ?case by simp
next
  case (Cons c cs)
  then show ?case by (cases "split_nl cs") (auto split: if_splits)
qed

lemma escape_char_LF: "escape_char LF = [LF]"
  by (simp add: escape_char_other)

lemma escape_text_join_nl: "escape_text (join_nl ps) = join_nl (map escape_text ps)"
  by (induction ps rule: join_nl.induct) (simp_all add: escape_char_LF)

section \<open>Two passes over a text frame\<close>

lemma str_replace_self: "old \<noteq> [] \<Longrightarrow> str_replace old old new = new"
  by (cases old) auto

lemma placeholder_not_Nil: "placeholder n \<noteq> []"
  by (simp add: placeholder_def)

lemma placeholder_inject: "placeholder a = placeholder b \<longleftrightarrow> a = b"
  by (simp add: placeholder_def)

lemma split_nl_no_LF: "LF \<notin> set s \<Longrightarrow> split_nl s = [s]"
  by (induction s) auto

lemma LF_placeholder: "LF \<in> set (placeholder n) \<longleftrightarrow> LF \<in> set n"
  by (auto simp: placeholder_def)

text \<open>
  C8. One call of \<^verbatim>\<open>replace_placeholders\<close> runs the whole-frame pass and then the
  per-paragraph pass over the rewritten frame, so a value that is itself a placeholder is
  substituted again in the same call: for distinct names \<open>a\<close> and \<open>b\<close> (without closing
  brace or line feed, \<open>b\<close> without a character the library escapes), a frame with the
  single paragraph \<^verbatim>\<open>{{a}}\<close> and the data \<^verbatim>\<open>{a: "{{b}}", b: x}\<close> ends with the text
  \<open>x\<close>, as the library stores it, and the count 2. The witness is the frame
  \<^verbatim>\<open>{{a}}\<close> with \<^verbatim>\<open>{"a": "{{b}}", "b": "X"}\<close>, which ends with the text \<^verbatim>\<open>X\<close>.
\<close>

theorem replace_in_text_frame_cascades:
  assumes "a \<noteq> b"
    and "CHR ''}'' \<notin> set a" and "LF \<notin> set a"
    and "CHR ''}'' \<notin> set b" and "LF \<notin> set b" and "no_escape b"
  shows "replace_placeholders
           \<lparr>presentation = Some [[\<lparr>text_frame = Some [placeholder a], table = None\<rparr>]],
            template_path = tp\<rparr>
           [a \<mapsto> PStr (placeholder b), b \<mapsto> PStr x] =
         (\<lparr>presentation = Some [[\<lparr>text_frame = Some [set_paragraph_text x], table = None\<rparr>]],
           template_path = tp\<rparr>, Returns 2)"
proof -
  let ?data = "[a \<mapsto> PStr (placeholder b), b \<mapsto> PStr x]"
  have whole: "replace_matches ?data (findall (placeholder a)) (placeholder a) 0 =
      Inr (placeholder b, 1)"
    using assms by (simp add: findall_placeholder str_replace_self placeholder_not_Nil)
  have "set_paragraph_text (placeholder b) = placeholder b"
    using assms by (simp add: set_paragraph_text_id LF_placeholder)
  then have par: "replace_in_paragraph ?data (placeholder b) = (set_paragraph_text x, Inr 1)"
    using assms
    by (auto simp: replace_in_paragraph_def findall_placeholder str_replace_self
        placeholder_not_Nil Let_def)
  have "set_text_frame_text (placeholder b) = [placeholder b]"
    using assms by (simp add: set_text_frame_text_def split_nl_no_LF LF_placeholder append_text_id)
  then have frame: "replace_in_text_frame [placeholder a] ?data = ([set_paragraph_text x], Inr 2)"
    using assms whole par
    by (simp add: replace_in_text_frame_def text_frame_text_def
        placeholder_not_Nil placeholder_inject)
  show ?thesis
    using frame
    by (simp add: replace_placeholders_def replace_placeholders_body_def replace_in_shape_def
        except_Exception_def)
qed

theorem replace_in_text_frame_cascades_witness:
  "replace_placeholders (single_frame ''{{a}}'') [''a'' \<mapsto> PStr ''{{b}}'', ''b'' \<mapsto> PStr ''X''] =
   (single_frame ''X'', Returns 2)"
  using replace_in_text_frame_cascades[of "''a''" "''b''" "Some ''templates/relatorio.pptx''" "''X''"]
  by (simp add: placeholder_def stored_text_defs single_frame_def)

section \<open>Substitution on templates without nested braces\<close>

lemma render_simps [simp]:
  "render [] = []"
  "render (seg # segs) = render_seg seg @ render segs"
  "render (xs @ ys) = render xs @ render ys"
  by (simp_all add: render_def)

lemma placeholder_Cons: "placeholder n @ r = CHR ''{'' # CHR ''{'' # n @ ''}}'' @ r"
  by (simp add: placeholder_def)

lemma match_at_not_brace: "CHR ''{'' \<noteq> c \<Longrightarrow> match_at (c # cs) = None"
  by (auto simp: match_at_def)

subsection \<open>findall on segments\<close>

lemma findall_literal: "CHR ''{'' \<notin> set s \<Longrightarrow> findall (s @ r) = findall r"
  by (induction s) (simp_all add: match_at_not_brace)

lemma findall_token:
  assumes "CHR ''}'' \<notin> set n" "LF \<notin> set n"
  shows "findall (placeholder n @ r) = n # findall r"
  using match_at_placeholder[OF assms, of r] by (simp add: placeholder_def)

lemma findall_render: "list_all valid_seg segs \<Longrightarrow> findall (render segs) = toks segs"
proof (induction segs)
  case Nil
  then show ?case by simp
next
  case (Cons seg segs)
  then show ?case
    by (cases seg) (simp_all add: findall_literal findall_token brace_free_def)
qed

subsection \<open>substitute_text on segments\<close>

lemma substitute_literal:
  "CHR ''{'' \<notin> set s \<Longrightarrow> substitute_text data (s @ r) = s @ substitute_text data r"
  by (induction s) (simp_all add: match_at_not_brace)

lemma substitute_token:
  assumes "CHR ''}'' \<notin> set n" "LF \<notin> set n"
  shows "substitute_text data (placeholder n @ r) =
     (case value_text data n of Some s \<Rightarrow> s | None \<Rightarrow> placeholder n) @ substitute_text data r"
  using match_at_placeholder[OF assms, of r] by (simp add: placeholder_def)

lemma substitute_render:
  "list_all valid_seg segs \<Longrightarrow>
     substitute_text data (render segs) = render (map (fill_seg (value_text data)) segs)"
proof (induction segs)
  case Nil
  then show ?case by simp
next
  case (Cons seg segs)
  then show ?case
    by (cases seg)
      (simp_all add: substitute_literal substitute_token brace_free_def split: option.splits)
qed

subsection \<open>str_replace on segments\<close>

lemma str_replace_not_brace:
  "CHR ''{'' \<noteq> c \<Longrightarrow>
     str_replace (c # cs) (placeholder k) v = c # str_replace cs (placeholder k) v"
  by (auto simp: placeholder_def)

lemma str_replace_literal:
  "CHR ''{'' \<notin> set s \<Longrightarrow>
     str_replace (s @ r) (placeholder k) v = s @ str_replace r (placeholder k) v"
  by (induction s) (simp_all add: str_replace_not_brace del: str_replace.simps)

lemma str_replace_token_same:
  "str_replace (placeholder k @ r) (placeholder k) v = v @ str_replace r (placeholder k) v"
proof -
  have "placeholder k @ r = CHR ''{'' # (CHR ''{'' # k @ ''}}'' @ r)"
    by (simp add: placeholder_def)
  moreover have "placeholder k \<noteq> []" by (simp add: placeholder_def)
  moreover have "take (length (placeholder k)) (placeholder k @ r) = placeholder k" by simp
  moreover have "drop (length (placeholder k)) (placeholder k @ r) = r" by simp
  ultimately show ?thesis
    by (metis str_replace.simps(2))
qed

lemma first_closing_brace:
  "CHR ''}'' \<notin> set k \<Longrightarrow> CHR ''}'' \<notin> set n \<Longrightarrow> k @ CHR ''}'' # x = n @ CHR ''}'' # y \<Longrightarrow> k = n"
proof (induction k arbitrary: n)
  case Nil
  then show ?case by (cases n) auto
next
  case (Cons a k)
  then show ?case by (cases n) auto
qed

lemma take_eq_iff_prefix: "take (length old) s = old \<longleftrightarrow> (\<exists>z. s = old @ z)"
  by (metis append_eq_conv_conj append_take_drop_id)

lemma str_replace_token_other:
  assumes "brace_free n" "brace_free k" "n \<noteq> k"
  shows "str_replace (placeholder n @ r) (placeholder k) v =
           placeholder n @ str_replace r (placeholder k) v"
proof -
  let ?old = "placeholder k"
  have old: "?old \<noteq> []" by (simp add: placeholder_def)
  have no0: "take (length ?old) (placeholder n @ r) \<noteq> ?old"
  proof
    assume "take (length ?old) (placeholder n @ r) = ?old"
    then obtain z where "placeholder n @ r = ?old @ z"
      using take_eq_iff_prefix by blast
    then have "n @ CHR ''}'' # (CHR ''}'' # r) = k @ CHR ''}'' # (CHR ''}'' # z)"
      by (simp add: placeholder_def)
    then have "k = n"
      using first_closing_brace[of k n "CHR ''}'' # z" "CHR ''}'' # r"] assms
      by (simp add: brace_free_def)
    with assms show False by simp
  qed
  have no1: "take (length ?old) (CHR ''{'' # n @ ''}}'' @ r) \<noteq> ?old"
  proof
    assume "take (length ?old) (CHR ''{'' # n @ ''}}'' @ r) = ?old"
    then obtain z where "CHR ''{'' # n @ ''}}'' @ r = ?old @ z"
      using take_eq_iff_prefix by blast
    then have "n @ ''}}'' @ r = CHR ''{'' # k @ ''}}'' @ z"
      by (simp add: placeholder_def)
    with assms show False
      by (cases n) (auto simp: brace_free_def)
  qed
  have "str_replace (placeholder n @ r) ?old v =
          CHR ''{'' # str_replace (CHR ''{'' # n @ ''}}'' @ r) ?old v"
    using no0 old by (simp add: placeholder_Cons)
  also have "\<dots> = CHR ''{'' # CHR ''{'' # str_replace (n @ ''}}'' @ r) ?old v"
    using no1 old by simp
  also have "\<dots> = CHR ''{'' # CHR ''{'' # n @ str_replace (''}}'' @ r) ?old v"
    using assms by (simp add: str_replace_literal brace_free_def)
  also have "\<dots> = CHR ''{'' # CHR ''{'' # n @ ''}}'' @ str_replace r ?old v"
    by (simp add: str_replace_not_brace del: str_replace.simps)
  finally show ?thesis by (simp add: placeholder_Cons)
qed

lemma str_replace_render:
  assumes "list_all valid_seg segs" "brace_free k"
  shows "str_replace (render segs) (placeholder k) v =
           render (map (fill_seg (\<lambda>n. if n = k then Some v else None)) segs)"
  using assms(1)
proof (induction segs)
  case Nil
  then show ?case by (simp add: placeholder_def)
next
  case (Cons seg segs)
  show ?case
  proof (cases seg)
    case (Lit s)
    with Cons show ?thesis by (simp add: str_replace_literal brace_free_def)
  next
    case (Tok n)
    with Cons assms(2) show ?thesis
      by (cases "n = k") (simp_all add: str_replace_token_same str_replace_token_other)
  qed
qed

lemma value_text_plain:
  assumes "plain_values data"
  shows "value_text data n = None \<longleftrightarrow> data n = None"
    and "value_text data n = Some s \<Longrightarrow> brace_free s"
proof -
  have *: "\<exists>s. py_str v = Inr s \<and> brace_free s" if "data n = Some v" for n v
    using assms that unfolding plain_values_def by blast
  show "value_text data n = None \<longleftrightarrow> data n = None"
    using *[of n] by (auto simp: value_text_def split: option.splits sum.splits)
  show "value_text data n = Some s \<Longrightarrow> brace_free s"
    using *[of n] by (auto simp: value_text_def split: option.splits sum.splits)
qed

lemma valid_fill:
  assumes "\<And>n s. f n = Some s \<Longrightarrow> brace_free s"
  shows "list_all valid_seg segs \<Longrightarrow> list_all valid_seg (map (fill_seg f) segs)"
proof (induction segs)
  case Nil
  then show ?case by simp
next
  case (Cons seg segs)
  then show ?case using assms by (cases seg) (auto split: option.splits)
qed

lemma toks_fill: "toks (map (fill_seg f) segs) = filter (\<lambda>n. f n = None) (toks segs)"
proof (induction segs)
  case Nil
  then show ?case by simp
next
  case (Cons seg segs)
  then show ?case by (cases seg) (auto split: option.splits)
qed

lemma toks_brace_free: "list_all valid_seg segs \<Longrightarrow> list_all brace_free (toks segs)"
proof (induction segs)
  case Nil
  then show ?case by simp
next
  case (Cons seg segs)
  then show ?case by (cases seg) auto
qed

lemma fill_fill:
  assumes "\<And>n. g' n = (case h n of Some s \<Rightarrow> Some s | None \<Rightarrow> g n)"
  shows "map (fill_seg g) (map (fill_seg h) segs) = map (fill_seg g') segs"
proof (induction segs)
  case Nil
  then show ?case by simp
next
  case (Cons seg segs)
  then show ?case using assms by (cases seg) (auto split: option.splits)
qed

lemma fill_cong:
  assumes "\<And>n. n \<in> set (toks segs) \<Longrightarrow> f n = g n"
  shows "map (fill_seg f) segs = map (fill_seg g) segs"
  using assms
proof (induction segs)
  case Nil
  then show ?case by simp
next
  case (Cons seg segs)
  then show ?case by (cases seg) auto
qed

lemma replace_matches_render:
  assumes pv: "plain_values data"
  shows "list_all valid_seg segs \<Longrightarrow> list_all brace_free ns \<Longrightarrow>
     replace_matches data ns (render segs) c =
       Inr (render (map (fill_seg (\<lambda>n. if n \<in> set ns then value_text data n else None)) segs),
            c + length (filter (\<lambda>n. n \<in> dom data) ns))"
proof (induction ns arbitrary: segs c)
  case Nil
  have "map (fill_seg (\<lambda>n. None)) segs = segs"
    by (induction segs) (auto simp: fill_seg.simps split: seg.splits, (case_tac a; simp)+)
  then show ?case by simp
next
  case (Cons m ms)
  show ?case
  proof (cases "data m")
    case None
    then have vt: "value_text data m = None" by (simp add: value_text_def)
    have "(\<lambda>n. if n \<in> set (m # ms) then value_text data n else None) =
          (\<lambda>n. if n \<in> set ms then value_text data n else None)"
      using vt by auto
    with None Cons show ?thesis by (simp add: domIff)
  next
    case (Some v)
    then obtain s where s: "py_str v = Inr s" "brace_free s"
      using pv by (auto simp: plain_values_def)
    then have vt: "value_text data m = Some s" using Some by (simp add: value_text_def)
    let ?h = "\<lambda>n. if n = m then Some s else None"
    let ?segs1 = "map (fill_seg ?h) segs"
    have m: "brace_free m" using Cons.prems by simp
    have r1: "str_replace (render segs) (placeholder m) s = render ?segs1"
      using str_replace_render[OF Cons.prems(1) m] .
    have v1: "list_all valid_seg ?segs1"
      by (rule valid_fill) (auto split: if_splits simp: s Cons.prems)
    have ih: "replace_matches data ms (render ?segs1) (c + 1) =
       Inr (render (map (fill_seg (\<lambda>n. if n \<in> set ms then value_text data n else None)) ?segs1),
            c + 1 + length (filter (\<lambda>n. n \<in> dom data) ms))"
      using Cons.IH[OF v1, of "c + 1"] Cons.prems(2) by simp
    have ff: "map (fill_seg (\<lambda>n. if n \<in> set ms then value_text data n else None)) ?segs1 =
          map (fill_seg (\<lambda>n. if n \<in> set (m # ms) then value_text data n else None)) segs"
      by (rule fill_fill) (auto simp: vt)
    have cnt: "c + 1 + length (filter (\<lambda>n. n \<in> dom data) ms) =
          c + length (filter (\<lambda>n. n \<in> dom data) (m # ms))"
      using Some by (simp add: domIff)
    have "replace_matches data (m # ms) (render segs) c =
          replace_matches data ms (str_replace (render segs) (placeholder m) s) (c + 1)"
      using Some s by simp
    also have "\<dots> = replace_matches data ms (render ?segs1) (c + 1)"
      by (simp only: r1)
    also note ih
    finally show ?thesis
      by (simp only: ff cnt)
  qed
qed

lemma replace_matches_findall_render:
  assumes "plain_values data" "list_all valid_seg segs"
  shows "replace_matches data (findall (render segs)) (render segs) 0 =
           Inr (substitute_text data (render segs), matched_count data (render segs))"
proof -
  have eq: "map (fill_seg (\<lambda>n. if n \<in> set (toks segs) then value_text data n else None)) segs =
        map (fill_seg (value_text data)) segs"
    by (rule fill_cong) simp
  show ?thesis
    unfolding findall_render[OF assms(2)] substitute_render[OF assms(2)] matched_count_def
      replace_matches_render[OF assms(1) assms(2) toks_brace_free[OF assms(2)], of 0] eq
    by simp
qed

lemma findall_substitute_render:
  assumes "plain_values data" "list_all valid_seg segs"
  shows "findall (substitute_text data (render segs)) =
           filter (\<lambda>n. n \<notin> dom data) (findall (render segs))"
proof -
  have v: "list_all valid_seg (map (fill_seg (value_text data)) segs)"
    using valid_fill[of "value_text data" segs] value_text_plain(2)[OF assms(1)] assms(2) by blast
  show ?thesis
    by (simp add: substitute_render[OF assms(2)] findall_render[OF v] findall_render[OF assms(2)]
        toks_fill value_text_plain(1)[OF assms(1)] domIff)
qed

subsection \<open>Plain texts are renderings of segments\<close>

lemma plain_text_segments:
  "(plain_text inside t \<longrightarrow>
      (if inside
       then \<exists>n r segs. t = n @ ''}}'' @ r \<and> brace_free n \<and> LF \<notin> set n \<and>
              list_all valid_seg segs \<and> render segs = r
       else \<exists>segs. list_all valid_seg segs \<and> render segs = t))"
proof (induction inside t rule: plain_text.induct)
  case (1 inside)
  show ?case by (auto intro: exI[of _ "[]"])
next
  case (2 c cs)
  show ?case
  proof (cases "c = CHR ''{''")
    case True
    show ?thesis
    proof
      assume p: "plain_text False (c # cs)"
      with True obtain ds where ds: "cs = CHR ''{'' # ds" "plain_text True ds"
        by (auto split: list.splits)
      with 2(1)[OF True ds(1)] True
      obtain n r segs where x: "ds = n @ ''}}'' @ r" "brace_free n" "LF \<notin> set n"
        "list_all valid_seg segs" "render segs = r"
        by auto
      have "list_all valid_seg (Tok n # segs) \<and> render (Tok n # segs) = c # cs"
        using x ds True by (simp add: placeholder_def)
      then show "if False then \<exists>n r segs. c # cs = n @ ''}}'' @ r \<and> brace_free n \<and> LF \<notin> set n \<and>
              list_all valid_seg segs \<and> render segs = r
          else \<exists>segs. list_all valid_seg segs \<and> render segs = c # cs"
        by (simp only: if_False) (rule exI)
    qed
  next
    case False
    show ?thesis
    proof
      assume p: "plain_text False (c # cs)"
      with False have c: "c \<noteq> CHR ''}''" and "plain_text False cs" by auto
      with 2(2)[OF False] obtain segs where x: "list_all valid_seg segs" "render segs = cs"
        by auto
      have "list_all valid_seg (Lit [c] # segs) \<and> render (Lit [c] # segs) = c # cs"
        using x c False by (simp add: brace_free_def)
      then show "if False then \<exists>n r segs. c # cs = n @ ''}}'' @ r \<and> brace_free n \<and> LF \<notin> set n \<and>
              list_all valid_seg segs \<and> render segs = r
          else \<exists>segs. list_all valid_seg segs \<and> render segs = c # cs"
        by (simp only: if_False) (rule exI)
    qed
  qed
next
  case (3 c cs)
  show ?case
  proof (cases "c = CHR ''}''")
    case True
    show ?thesis
    proof
      assume p: "plain_text True (c # cs)"
      with True obtain ds where ds: "cs = CHR ''}'' # ds" "plain_text False ds"
        by (auto split: list.splits)
      with 3(1)[OF True ds(1)] True
      obtain segs where x: "list_all valid_seg segs" "render segs = ds"
        by auto
      have "c # cs = [] @ ''}}'' @ ds \<and> brace_free [] \<and> LF \<notin> set [] \<and>
              list_all valid_seg segs \<and> render segs = ds"
        using x ds True by (simp add: brace_free_def)
      then show "if True then \<exists>n r segs. c # cs = n @ ''}}'' @ r \<and> brace_free n \<and> LF \<notin> set n \<and>
              list_all valid_seg segs \<and> render segs = r
          else \<exists>segs. list_all valid_seg segs \<and> render segs = c # cs"
        by (simp only: if_True) blast
    qed
  next
    case False
    show ?thesis
    proof
      assume p: "plain_text True (c # cs)"
      with False have c: "c \<noteq> CHR ''{''" "c \<noteq> LF" and "plain_text True cs" by auto
      with 3(2)[OF False] obtain n r segs where x: "cs = n @ ''}}'' @ r" "brace_free n"
        "LF \<notin> set n" "list_all valid_seg segs" "render segs = r"
        by auto
      have "c # cs = (c # n) @ ''}}'' @ r \<and> brace_free (c # n) \<and> LF \<notin> set (c # n) \<and>
              list_all valid_seg segs \<and> render segs = r"
        using x c False by (auto simp: brace_free_def)
      then show "if True then \<exists>n r segs. c # cs = n @ ''}}'' @ r \<and> brace_free n \<and> LF \<notin> set n \<and>
              list_all valid_seg segs \<and> render segs = r
          else \<exists>segs. list_all valid_seg segs \<and> render segs = c # cs"
        by (simp only: if_True) blast
    qed
  qed
qed

lemma plain_text_render:
  "plain_text False t \<Longrightarrow> \<exists>segs. list_all valid_seg segs \<and> render segs = t"
  using plain_text_segments[of False t] by simp

lemma replace_matches_plain:
  assumes "plain_values data" "plain_text False t"
  shows "replace_matches data (findall t) t 0 = Inr (substitute_text data t, matched_count data t)"
  using plain_text_render[OF assms(2)] replace_matches_findall_render[OF assms(1)] by auto

lemma findall_substitute_plain:
  assumes "plain_values data" "plain_text False t"
  shows "findall (substitute_text data t) = filter (\<lambda>n. n \<notin> dom data) (findall t)"
  using plain_text_render[OF assms(2)] findall_substitute_render[OF assms(1)] by auto

subsection \<open>Line feeds\<close>

lemma take2_append_LF_closing: "take 2 (a @ LF # b) = ''}}'' \<longleftrightarrow> take 2 a = ''}}''"
  by (cases a; cases "tl a") auto

lemma take2_append_LF_opening: "take 2 (a @ LF # b) = ''{{'' \<longleftrightarrow> take 2 a = ''{{''"
  by (cases a; cases "tl a") auto

lemma lazy_group_append_LF:
  "lazy_group (a @ LF # b) = map_option (\<lambda>(n, r). (n, r @ LF # b)) (lazy_group a)"
proof (induction a)
  case Nil
  then show ?case by simp
next
  case (Cons c cs)
  show ?case
  proof (cases "take 2 (c # cs) = ''}}''")
    case True
    then have "take 2 ((c # cs) @ LF # b) = ''}}''"
      by (simp only: take2_append_LF_closing)
    moreover from True have "length (c # cs) \<ge> 2"
      by (cases cs) auto
    ultimately show ?thesis using True by simp
  next
    case False
    then have "take 2 ((c # cs) @ LF # b) \<noteq> ''}}''"
      by (simp only: take2_append_LF_closing) simp
    with False Cons show ?thesis
      by (auto split: option.splits)
  qed
qed

lemma match_at_append_LF:
  "match_at (a @ LF # b) = map_option (\<lambda>(n, r). (n, r @ LF # b)) (match_at a)"
proof (cases "take 2 a = ''{{''")
  case True
  then have "length a \<ge> 2" by (cases a; cases "tl a") auto
  then have "drop 2 (a @ LF # b) = drop 2 a @ LF # b" by simp
  with True show ?thesis
    by (simp add: match_at_def take2_append_LF_opening lazy_group_append_LF)
next
  case False
  then show ?thesis
    unfolding match_at_def by (simp only: take2_append_LF_opening) simp
qed

lemma findall_append_LF: "findall (a @ LF # b) = findall a @ findall b"
proof (induction a rule: findall.induct)
  case 1
  show ?case by (simp add: match_at_def)
next
  case (2 c cs)
  show ?case
  proof (cases "match_at (c # cs)")
    case None
    then have "match_at ((c # cs) @ LF # b) = None"
      by (simp only: match_at_append_LF) simp
    with None 2 show ?thesis by simp
  next
    case (Some x)
    obtain n r where x: "x = (n, r)" by (cases x)
    with Some have "match_at ((c # cs) @ LF # b) = Some (n, r @ LF # b)"
      by (simp only: match_at_append_LF) simp
    with Some x 2 show ?thesis by simp
  qed
qed

lemma findall_join_nl: "findall (join_nl ps) = concat (map findall ps)"
  by (induction ps rule: join_nl.induct) (simp_all add: findall_append_LF)

lemma split_nl_not_Nil: "split_nl t \<noteq> []"
  by (induction t) (auto split: list.splits)

lemma join_nl_Cons_Cons: "join_nl ((c # p) # ps) = c # join_nl (p # ps)"
  by (cases ps) simp_all

lemma join_nl_Nil_Cons: "ps \<noteq> [] \<Longrightarrow> join_nl ([] # ps) = LF # join_nl ps"
  by (cases ps) simp_all

lemma join_split_nl: "join_nl (split_nl t) = t"
proof (induction t)
  case Nil
  then show ?case by simp
next
  case (Cons c cs)
  then show ?case
    using split_nl_not_Nil[of cs]
    by (auto simp: join_nl_Nil_Cons join_nl_Cons_Cons split: list.splits)
qed

lemma split_nl_append_LF: "LF \<notin> set p \<Longrightarrow> split_nl (p @ LF # r) = p # split_nl r"
  by (induction p) auto

lemma split_join_nl:
  "ps \<noteq> [] \<Longrightarrow> \<forall>p\<in>set ps. LF \<notin> set p \<Longrightarrow> split_nl (join_nl ps) = ps"
proof (induction ps rule: join_nl.induct)
  case 1
  then show ?case by simp
next
  case (2 p)
  then show ?case by (simp add: split_nl_no_LF)
next
  case (3 p q ps)
  then show ?case by (simp add: split_nl_append_LF)
qed

lemma join_nl_eq_Nil: "ps \<noteq> [] \<Longrightarrow> join_nl ps = [] \<Longrightarrow> ps = [[]]"
  by (induction ps rule: join_nl.induct) auto

lemma plain_text_append:
  "plain_text inside a \<Longrightarrow> plain_text False b \<Longrightarrow> plain_text inside (a @ b)"
  by (induction inside a rule: plain_text.induct) (auto split: list.splits if_splits)

lemma plain_text_join_nl:
  "\<forall>p\<in>set ps. plain_text False p \<Longrightarrow> plain_text False (join_nl ps)"
proof (induction ps rule: join_nl.induct)
  case 1
  then show ?case by simp
next
  case (2 p)
  then show ?case by simp
next
  case (3 p q ps)
  then have "plain_text False (LF # join_nl (q # ps))" by simp
  with 3 show ?case using plain_text_append[of False p "LF # join_nl (q # ps)"] by simp
qed

subsection \<open>Loops\<close>

lemma for_each_map:
  "(\<And>x. x \<in> set xs \<Longrightarrow> f x = (h x, Inr (k x))) \<Longrightarrow>
     for_each f xs = (map h xs, Inr (sum_list (map k xs)))"
  by (induction xs) auto

lemma for_each_unchanged:
  "(\<And>x. x \<in> set xs \<Longrightarrow> f x = (x, Inr 0)) \<Longrightarrow> for_each f xs = (xs, Inr 0)"
  using for_each_map[of xs f "\<lambda>x. x" "\<lambda>x. 0"] by simp

lemma for_each_rel:
  assumes "\<And>x. R x x" and "\<And>x. R x (fst (f x))"
  shows "list_all2 R xs (fst (for_each f xs))"
proof (induction xs)
  case Nil
  then show ?case by simp
next
  case (Cons x xs)
  have refl: "list_all2 R xs xs" using assms(1) by (simp add: list_all2_same)
  obtain x' r where fx: "f x = (x', r)" by (cases "f x")
  then have rx: "R x x'" using assms(2)[of x] by simp
  obtain xs' r' where fxs: "for_each f xs = (xs', r')" by (cases "for_each f xs")
  with Cons have "list_all2 R xs xs'" by simp
  with fx fxs rx refl show ?case
    by (auto split: sum.splits)
qed

subsection \<open>Texts without a matching placeholder\<close>

lemma replace_matches_none:
  "\<forall>m\<in>set ms. data m = None \<Longrightarrow> replace_matches data ms t c = Inr (t, c)"
  by (induction ms) auto

lemma replace_in_paragraph_none:
  "\<forall>m\<in>set (findall p). data m = None \<Longrightarrow> replace_in_paragraph data p = (p, Inr 0)"
  by (simp add: replace_in_paragraph_def replace_matches_none)

lemma paragraphs_none:
  assumes "\<forall>m\<in>set (findall (join_nl ps)). data m = None"
  shows "for_each (replace_in_paragraph data) ps = (ps, Inr 0)"
proof (rule for_each_unchanged)
  fix p assume "p \<in> set ps"
  then have "set (findall p) \<subseteq> set (findall (join_nl ps))"
    by (auto simp: findall_join_nl)
  with assms show "replace_in_paragraph data p = (p, Inr 0)"
    by (intro replace_in_paragraph_none) blast
qed

lemma replace_in_text_frame_none:
  assumes "\<forall>m\<in>set (findall (text_frame_text tf)). data m = None"
  shows "replace_in_text_frame tf data = (tf, Inr 0)"
  using assms paragraphs_none[of tf data]
  by (simp add: replace_in_text_frame_def replace_matches_none text_frame_text_def Let_def)

lemma replace_in_cell_none:
  assumes "\<forall>m\<in>set (findall (text_frame_text c)). data m = None"
  shows "for_each (replace_in_paragraph data) c = (c, Inr 0)"
  using assms paragraphs_none[of c data] by (simp add: text_frame_text_def)

lemma replace_in_table_none:
  assumes "\<forall>m\<in>found_names (map text_frame_text (concat tbl)). data m = None"
  shows "replace_in_table tbl data = (tbl, Inr 0)"
  unfolding replace_in_table_def
proof (rule for_each_unchanged)
  fix row assume row: "row \<in> set tbl"
  show "for_each (for_each (replace_in_paragraph data)) row = (row, Inr 0)"
  proof (rule for_each_unchanged)
    fix c assume "c \<in> set row"
    with row have "set (findall (text_frame_text c)) \<subseteq> found_names (map text_frame_text (concat tbl))"
      by (auto simp: found_names_def)
    with assms show "for_each (replace_in_paragraph data) c = (c, Inr 0)"
      by (intro replace_in_cell_none) blast
  qed
qed

lemma replace_in_shape_none:
  assumes "\<forall>m\<in>found_names (shape_texts sh). data m = None"
  shows "replace_in_shape data sh = (sh, Inr 0)"
proof -
  have tf: "replace_in_text_frame tf data = (tf, Inr 0)" if "text_frame sh = Some tf" for tf
    using assms that by (intro replace_in_text_frame_none) (auto simp: shape_texts_def)
  have tb: "replace_in_table tbl data = (tbl, Inr 0)" if "table sh = Some tbl" for tbl
    using assms that by (intro replace_in_table_none) (auto simp: shape_texts_def)
  show ?thesis
    by (auto simp: replace_in_shape_def tf tb split: option.splits)
qed

lemma replace_in_presentation_none:
  assumes "\<forall>m\<in>found_names (presentation_texts prs). data m = None"
  shows "for_each (for_each (replace_in_shape data)) prs = (prs, Inr 0)"
proof (rule for_each_unchanged)
  fix sl assume sl: "sl \<in> set prs"
  show "for_each (replace_in_shape data) sl = (sl, Inr 0)"
  proof (rule for_each_unchanged)
    fix sh assume "sh \<in> set sl"
    with sl have "found_names (shape_texts sh) \<subseteq> found_names (presentation_texts prs)"
      by (auto simp: found_names_def presentation_texts_def)
    with assms show "replace_in_shape data sh = (sh, Inr 0)"
      by (intro replace_in_shape_none) blast
  qed
qed

subsection \<open>Stored texts on segments\<close>

lemma set_subset_render: "Tok n \<in> set segs \<Longrightarrow> set n \<subseteq> set (render segs)"
  by (induction segs) (auto simp: placeholder_def)

lemma clean_segments: "no_escape (render segs) \<Longrightarrow> list_all clean_seg segs"
proof (induction segs)
  case Nil
  then show ?case by simp
next
  case (Cons seg segs)
  then show ?case by (cases seg) simp_all
qed

lemma clean_fill: "list_all clean_seg segs \<Longrightarrow> list_all clean_seg (map (fill_seg f) segs)"
proof (induction segs)
  case Nil
  then show ?case by simp
next
  case (Cons seg segs)
  then show ?case by (cases seg) (auto split: option.splits)
qed

lemma toks_stored: "toks (map (stored_seg f) segs) = toks segs"
proof (induction segs)
  case Nil
  then show ?case by simp
next
  case (Cons seg segs)
  then show ?case by (cases seg) simp_all
qed

lemma valid_stored:
  assumes "\<And>s. brace_free s \<Longrightarrow> brace_free (f s)"
  shows "list_all valid_seg segs \<Longrightarrow> list_all valid_seg (map (stored_seg f) segs)"
proof (induction segs)
  case Nil
  then show ?case by simp
next
  case (Cons seg segs)
  then show ?case using assms by (cases seg) simp_all
qed

lemma stored_render:
  assumes app: "\<And>a b. f (a @ b) = f a @ f b"
    and tok: "\<And>n. LF \<notin> set n \<Longrightarrow> no_escape n \<Longrightarrow> f (placeholder n) = placeholder n"
  shows "list_all valid_seg segs \<Longrightarrow> list_all clean_seg segs \<Longrightarrow>
           f (render segs) = render (map (stored_seg f) segs)"
proof (induction segs)
  case Nil
  have "f [] = f [] @ f []" using app[of "[]" "[]"] by simp
  then show ?case by simp
next
  case (Cons seg segs)
  then show ?case by (cases seg) (simp_all add: app tok)
qed

lemma findall_stored_substituted:
  assumes app: "\<And>a b. f (a @ b) = f a @ f b"
    and tok: "\<And>n. LF \<notin> set n \<Longrightarrow> no_escape n \<Longrightarrow> f (placeholder n) = placeholder n"
    and bf: "\<And>s. brace_free s \<Longrightarrow> brace_free (f s)"
    and pv: "plain_values data" and pt: "plain_text False t" and ne: "no_escape t"
  shows "findall (f (substitute_text data t)) = filter (\<lambda>n. n \<notin> dom data) (findall t)"
proof -
  obtain segs where segs: "list_all valid_seg segs" "render segs = t"
    using plain_text_render[OF pt] by blast
  let ?segs2 = "map (fill_seg (value_text data)) segs"
  have v2: "list_all valid_seg ?segs2"
    using valid_fill[of "value_text data" segs] value_text_plain(2)[OF pv] segs(1) by blast
  have c2: "list_all clean_seg ?segs2"
    using ne segs(2) by (intro clean_fill clean_segments) simp
  have v3: "list_all valid_seg (map (stored_seg f) ?segs2)"
    using bf v2 by (rule valid_stored)
  have "f (render ?segs2) = render (map (stored_seg f) ?segs2)"
    using app tok v2 c2 by (rule stored_render)
  then have "findall (f (substitute_text data (render segs))) =
      findall (render (map (stored_seg f) ?segs2))"
    by (simp only: substitute_render[OF segs(1)])
  also have "\<dots> = toks ?segs2"
    by (simp only: findall_render[OF v3] toks_stored)
  also have "\<dots> = filter (\<lambda>n. n \<notin> dom data) (findall (render segs))"
    by (simp add: toks_fill findall_render[OF segs(1)] value_text_plain(1)[OF pv] domIff)
  finally show ?thesis by (simp only: segs(2))
qed

lemma findall_escape_substituted:
  assumes "plain_values data" "plain_text False t" "no_escape t"
  shows "findall (escape_text (substitute_text data t)) =
           filter (\<lambda>n. n \<notin> dom data) (findall t)"
  by (rule findall_stored_substituted[OF _ _ _ assms])
    (simp_all add: escape_text_id brace_free_escape_text)

lemma findall_paragraph_substituted:
  assumes "plain_values data" "plain_text False p" "no_escape p"
  shows "findall (set_paragraph_text (substitute_text data p)) =
           filter (\<lambda>n. n \<notin> dom data) (findall p)"
  unfolding set_paragraph_text_def
  by (rule findall_stored_substituted[OF _ _ _ assms])
    (simp_all add: append_text_append append_text_id LF_placeholder brace_free_append_text)

lemma no_escape_join_nl: "list_all no_escape ps \<Longrightarrow> no_escape (join_nl ps)"
  by (induction ps rule: join_nl.induct) simp_all

lemma text_of_set_text_frame: "text_frame_text (set_text_frame_text t) = escape_text t"
proof -
  have eq: "map append_text (split_nl t) = map escape_text (split_nl t)"
    by (rule map_cong[OF refl]) (simp add: split_nl_pieces append_text_no_LF)
  have "join_nl (map escape_text (split_nl t)) = escape_text (join_nl (split_nl t))"
    by (rule escape_text_join_nl[symmetric])
  then show ?thesis
    unfolding text_frame_text_def set_text_frame_text_def eq by (simp only: join_split_nl)
qed

lemma set_text_frame_text_id:
  assumes "tf \<noteq> []" "\<forall>p\<in>set tf. LF \<notin> set p \<and> no_escape p"
  shows "set_text_frame_text (join_nl tf) = tf"
proof -
  have "split_nl (join_nl tf) = tf"
    using assms by (intro split_join_nl) auto
  moreover have "map append_text tf = tf"
    using assms(2) by (intro map_idI) (simp add: append_text_id)
  ultimately show ?thesis by (simp add: set_text_frame_text_def)
qed

subsection \<open>Paragraphs of table cells\<close>

lemma replace_in_paragraph_plain:
  assumes "plain_values data" "plain_paragraph p"
  shows "replace_in_paragraph data p =
           (set_paragraph_text (substitute_text data p), Inr (matched_count data p))"
proof -
  from assms(2) have p: "plain_text False p" "LF \<notin> set p" "no_escape p"
    by (simp_all add: plain_paragraph_def)
  have "set_paragraph_text p = p" using p(2,3) by (rule set_paragraph_text_id)
  then show ?thesis
    using replace_matches_plain[OF assms(1) p(1)]
    by (auto simp: replace_in_paragraph_def Let_def)
qed

lemma matched_count_join_nl:
  "matched_count data (join_nl ps) = sum_list (map (matched_count data) ps)"
  by (induction ps) (simp_all add: matched_count_def findall_join_nl)

lemma replace_in_cell_plain:
  assumes "plain_values data" "list_all plain_paragraph c"
  shows "for_each (replace_in_paragraph data) c =
           (map (\<lambda>p. set_paragraph_text (substitute_text data p)) c,
            Inr (matched_count data (text_frame_text c)))"
  unfolding text_frame_text_def matched_count_join_nl
  by (rule for_each_map) (use assms in \<open>auto simp: list_all_iff replace_in_paragraph_plain\<close>)

lemma replace_in_table_plain:
  assumes "plain_values data" "list_all (list_all (list_all plain_paragraph)) tbl"
  shows "replace_in_table tbl data =
           (map (map (map (\<lambda>p. set_paragraph_text (substitute_text data p)))) tbl,
            Inr (sum_list (map (matched_count data) (map text_frame_text (concat tbl)))))"
proof -
  have row: "for_each (for_each (replace_in_paragraph data)) row =
      (map (map (\<lambda>p. set_paragraph_text (substitute_text data p))) row,
       Inr (sum_list (map (\<lambda>c. matched_count data (text_frame_text c)) row)))"
    if "row \<in> set tbl" for row
    by (rule for_each_map) (use assms that in \<open>auto simp: list_all_iff replace_in_cell_plain\<close>)
  have "replace_in_table tbl data =
      (map (map (map (\<lambda>p. set_paragraph_text (substitute_text data p)))) tbl,
       Inr (sum_list (map (\<lambda>row. sum_list (map (\<lambda>c. matched_count data (text_frame_text c)) row)) tbl)))"
    unfolding replace_in_table_def by (rule for_each_map) (rule row)
  moreover have "sum_list (map (\<lambda>row. sum_list (map (\<lambda>c. matched_count data (text_frame_text c)) row)) tbl) =
      sum_list (map (matched_count data) (map text_frame_text (concat tbl)))"
    by (induction tbl) (simp_all add: comp_def)
  ultimately show ?thesis by simp
qed

subsection \<open>Text frames\<close>

lemma replace_in_text_frame_plain:
  assumes pv: "plain_values data" and ne: "tf \<noteq> []" and pl: "list_all plain_paragraph tf"
  shows "replace_in_text_frame tf data =
           (set_text_frame_text (substitute_text data (text_frame_text tf)),
            Inr (matched_count data (text_frame_text tf)))"
proof (cases "join_nl tf = []")
  case True
  have "tf = [[]]" using ne True by (rule join_nl_eq_Nil)
  then show ?thesis
    by (simp add: replace_in_text_frame_def text_frame_text_def set_text_frame_text_def
        append_text_def matched_count_def)
next
  case False
  let ?t = "join_nl tf"
  let ?new = "substitute_text data ?t"
  have pt: "plain_text False ?t"
    using pl by (intro plain_text_join_nl) (auto simp: list_all_iff plain_paragraph_def)
  have nt: "no_escape ?t"
    using pl by (intro no_escape_join_nl) (auto simp: list_all_iff plain_paragraph_def)
  have whole: "replace_matches data (findall ?t) ?t 0 = Inr (?new, matched_count data ?t)"
    using replace_matches_plain[OF pv pt] .
  have "set_text_frame_text ?t = tf"
    using ne pl by (intro set_text_frame_text_id) (auto simp: list_all_iff plain_paragraph_def)
  then have tf': "(if ?new \<noteq> ?t then set_text_frame_text ?new else tf) = set_text_frame_text ?new"
    by auto
  have "\<forall>m\<in>set (findall (join_nl (set_text_frame_text ?new))). data m = None"
    using text_of_set_text_frame[of ?new]
    by (auto simp: text_frame_text_def findall_escape_substituted[OF pv pt nt] domIff)
  then have pars: "for_each (replace_in_paragraph data) (set_text_frame_text ?new) =
      (set_text_frame_text ?new, Inr 0)"
    by (rule paragraphs_none)
  show ?thesis
    using False
    by (simp add: replace_in_text_frame_def text_frame_text_def whole tf' pars Let_def)
qed

subsection \<open>Shapes, slides and the presentation\<close>

lemma replace_in_shape_plain:
  assumes "plain_values data" "plain_shape sh"
  shows "replace_in_shape data sh = (substitute_shape data sh, Inr (shape_count data sh))"
proof -
  have tf: "replace_in_text_frame tf data =
           (set_text_frame_text (substitute_text data (text_frame_text tf)),
            Inr (matched_count data (text_frame_text tf)))"
    if "text_frame sh = Some tf" for tf
    using assms that by (intro replace_in_text_frame_plain) (auto simp: plain_shape_def)
  have tb: "replace_in_table tbl data =
           (map (map (map (\<lambda>p. set_paragraph_text (substitute_text data p)))) tbl,
            Inr (sum_list (map (matched_count data) (map text_frame_text (concat tbl)))))"
    if "table sh = Some tbl" for tbl
    using assms that by (intro replace_in_table_plain) (auto simp: plain_shape_def)
  show ?thesis
    by (auto simp: replace_in_shape_def substitute_shape_def shape_count_def shape_texts_def
        tf tb split: option.splits)
qed

lemma replace_in_presentation_plain:
  assumes "plain_values data" "plain_presentation prs"
  shows "for_each (for_each (replace_in_shape data)) prs =
           (substitute_presentation data prs, Inr (matched_occurrences data prs))"
proof -
  have sl: "for_each (replace_in_shape data) sl =
      (map (substitute_shape data) sl, Inr (sum_list (map (shape_count data) sl)))"
    if "sl \<in> set prs" for sl
    by (rule for_each_map)
      (use assms that in \<open>auto simp: plain_presentation_def list_all_iff replace_in_shape_plain\<close>)
  have "for_each (for_each (replace_in_shape data)) prs =
      (map (map (substitute_shape data)) prs,
       Inr (sum_list (map (\<lambda>sl. sum_list (map (shape_count data) sl)) prs)))"
    by (rule for_each_map) (rule sl)
  moreover have "sum_list (map (\<lambda>sl. sum_list (map (shape_count data) sl)) prs) =
      sum_list (map (matched_count data) (presentation_texts prs))"
    unfolding presentation_texts_def shape_count_def
  proof (induction prs)
    case Nil
    show ?case by simp
  next
    case (Cons sl prs)
    have "sum_list (map (\<lambda>sh. sum_list (map (matched_count data) (shape_texts sh))) sl) =
          sum_list (map (matched_count data) (concat (map shape_texts sl)))"
      by (induction sl) simp_all
    with Cons show ?case by simp
  qed
  ultimately show ?thesis
    by (simp add: substitute_presentation_def matched_occurrences_def)
qed

lemma replace_placeholders_plain:
  assumes "presentation g = Some prs" "plain_presentation prs" "plain_values data"
  shows "replace_placeholders g data =
           (g\<lparr>presentation := Some (substitute_presentation data prs)\<rparr>,
            Returns (matched_occurrences data prs))"
  using assms replace_in_presentation_plain[OF assms(3) assms(2)]
  by (simp add: replace_placeholders_def replace_placeholders_body_def except_Exception_def)

subsection \<open>What a call never touches\<close>

lemma frame_kept_refl: "frame_kept data tf tf"
  by (simp add: frame_kept_def)

lemma frame_kept_text_frame: "frame_kept data tf (fst (replace_in_text_frame tf data))"
  by (simp add: frame_kept_def replace_in_text_frame_none)

lemma frame_kept_cell: "frame_kept data c (fst (for_each (replace_in_paragraph data) c))"
  by (simp add: frame_kept_def replace_in_cell_none)

lemma table_kept:
  "list_all2 (list_all2 (frame_kept data)) tbl (fst (replace_in_table tbl data))"
  unfolding replace_in_table_def
proof (rule for_each_rel)
  show "list_all2 (frame_kept data) row row" for row
    by (simp add: list_all2_same frame_kept_refl)
  show "list_all2 (frame_kept data) row (fst (for_each (for_each (replace_in_paragraph data)) row))"
    for row
    by (rule for_each_rel) (simp_all add: frame_kept_refl frame_kept_cell)
qed

lemma shape_kept_refl: "shape_kept data sh sh"
  by (simp add: shape_kept_def option.rel_refl list_all2_same frame_kept_refl)

lemma shape_kept_replace: "shape_kept data sh (fst (replace_in_shape data sh))"
proof -
  define tf' where "tf' = map_option (\<lambda>tf. fst (replace_in_text_frame tf data)) (text_frame sh)"
  have rtf: "rel_option (frame_kept data) (text_frame sh) tf'"
    by (cases "text_frame sh") (simp_all add: tf'_def frame_kept_text_frame)
  define tbl' where "tbl' = map_option (\<lambda>tbl. fst (replace_in_table tbl data)) (table sh)"
  have rtb: "rel_option (list_all2 (list_all2 (frame_kept data))) (table sh) tbl'"
    by (cases "table sh") (simp_all add: tbl'_def table_kept)
  have rtb0: "rel_option (list_all2 (list_all2 (frame_kept data))) (table sh) (table sh)"
    by (simp add: option.rel_refl list_all2_same frame_kept_refl)
  have "text_frame (fst (replace_in_shape data sh)) = tf'"
    by (auto simp: replace_in_shape_def tf'_def split: option.splits prod.splits sum.splits)
  moreover have "table (fst (replace_in_shape data sh)) = tbl' \<or>
        table (fst (replace_in_shape data sh)) = table sh"
    by (auto simp: replace_in_shape_def tbl'_def split: option.splits prod.splits sum.splits)
  ultimately show ?thesis
    using rtf rtb rtb0 unfolding shape_kept_def by auto
qed

lemma presentation_kept:
  "list_all2 (list_all2 (shape_kept data)) prs (fst (for_each (for_each (replace_in_shape data)) prs))"
proof (rule for_each_rel)
  show "list_all2 (shape_kept data) sl sl" for sl
    by (simp add: list_all2_same shape_kept_refl)
  show "list_all2 (shape_kept data) sl (fst (for_each (replace_in_shape data) sl))" for sl
    by (rule for_each_rel) (simp_all add: shape_kept_refl shape_kept_replace)
qed

subsection \<open>The placeholders left by a substitution\<close>

lemma findall_cell_substituted:
  assumes "plain_values data" "list_all plain_paragraph c"
  shows "findall (text_frame_text (map (\<lambda>p. set_paragraph_text (substitute_text data p)) c)) =
           filter (\<lambda>n. n \<notin> dom data) (findall (text_frame_text c))"
  using assms(2)
  by (induction c)
    (simp_all add: text_frame_text_def findall_join_nl plain_paragraph_def
      findall_paragraph_substituted[OF assms(1)])

lemma findall_frame_substituted:
  assumes "plain_values data" "list_all plain_paragraph tf"
  shows "findall (text_frame_text (set_text_frame_text (substitute_text data (text_frame_text tf)))) =
           filter (\<lambda>n. n \<notin> dom data) (findall (text_frame_text tf))"
proof -
  have "plain_text False (join_nl tf)"
    using assms(2) by (intro plain_text_join_nl) (auto simp: list_all_iff plain_paragraph_def)
  moreover have "no_escape (join_nl tf)"
    using assms(2) by (intro no_escape_join_nl) (auto simp: list_all_iff plain_paragraph_def)
  ultimately have "findall (escape_text (substitute_text data (join_nl tf))) =
      filter (\<lambda>n. n \<notin> dom data) (findall (join_nl tf))"
    by (rule findall_escape_substituted[OF assms(1)])
  then show ?thesis
    unfolding text_of_set_text_frame by (simp only: text_frame_text_def)
qed

lemma findall_shape_substituted:
  assumes "plain_values data" "plain_shape sh"
  shows "map findall (shape_texts (substitute_shape data sh)) =
           map (\<lambda>t. filter (\<lambda>n. n \<notin> dom data) (findall t)) (shape_texts sh)"
proof -
  have cells: "map findall (map text_frame_text
        (concat (map (map (map (\<lambda>p. set_paragraph_text (substitute_text data p)))) tbl))) =
      map (\<lambda>t. filter (\<lambda>n. n \<notin> dom data) (findall t)) (map text_frame_text (concat tbl))"
    if "list_all (list_all (list_all plain_paragraph)) tbl" for tbl
    using that
  proof (induction tbl)
    case Nil
    show ?case by simp
  next
    case (Cons row tbl)
    have "map findall (map text_frame_text
              (map (map (\<lambda>p. set_paragraph_text (substitute_text data p))) row)) =
          map (\<lambda>t. filter (\<lambda>n. n \<notin> dom data) (findall t)) (map text_frame_text row)"
      using Cons.prems by (auto simp: list_all_iff findall_cell_substituted[OF assms(1)])
    with Cons show ?case by simp
  qed
  show ?thesis
    using assms(2)
    by (auto simp: shape_texts_def substitute_shape_def plain_shape_def cells[unfolded map_map]
        findall_frame_substituted[OF assms(1)] split: option.splits)
qed

lemma findall_presentation_substituted:
  assumes "plain_values data" "plain_presentation prs"
  shows "map findall (presentation_texts (substitute_presentation data prs)) =
           map (\<lambda>t. filter (\<lambda>n. n \<notin> dom data) (findall t)) (presentation_texts prs)"
proof -
  have sl: "map findall (concat (map shape_texts (map (substitute_shape data) sl))) =
      map (\<lambda>t. filter (\<lambda>n. n \<notin> dom data) (findall t)) (concat (map shape_texts sl))"
    if "list_all plain_shape sl" for sl
    using that
    by (induction sl) (simp_all add: findall_shape_substituted[OF assms(1)])
  show ?thesis
    using assms(2) unfolding presentation_texts_def substitute_presentation_def plain_presentation_def
    by (induction prs) (simp_all add: sl[unfolded map_map])
qed

lemma found_names_map_findall: "found_names ts = \<Union> (set (map set (map findall ts)))"
  by (simp add: found_names_def comp_def)

lemma substituted_names_unmatched:
  assumes "plain_values data" "plain_presentation prs"
  shows "\<forall>m\<in>found_names (presentation_texts (substitute_presentation data prs)). data m = None"
  unfolding found_names_map_findall findall_presentation_substituted[OF assms]
  by (auto simp: domIff)

section \<open>The substitution, the untouched content and the second pass\<close>

lemma plain_values_empty: "plain_values Map.empty"
  by (simp add: plain_values_def)

lemma plain_values_upd:
  "plain_values data \<Longrightarrow> brace_free s \<Longrightarrow> plain_values (data(k \<mapsto> PStr s))"
  by (auto simp: plain_values_def)

text \<open>
  C1, as the code has it. For a loaded presentation in which braces occur only as the
  delimiters of placeholders \<^verbatim>\<open>{{name}}\<close> (names without brace or line feed) and whose
  paragraphs hold no character the library escapes, and for substitution data whose
  values convert to texts without braces, \<^verbatim>\<open>replace_placeholders\<close> replaces every
  occurrence of a placeholder whose name is a key by the text of its value, as the
  library stores that text, and leaves the rest of each text as it is (the text of a
  frame is reassigned as a whole, a paragraph of a cell as a paragraph; a control
  character of a value is stored escaped), and it returns the number of occurrences
  replaced, one for each occurrence and not one for each name. The witness is scenario
  B: \<^verbatim>\<open>{{a}} and {{a}}\<close> with \<^verbatim>\<open>{"a": "X"}\<close> becomes \<^verbatim>\<open>X and X\<close> and the count is 2;
  it also holds a value with a carriage return, stored as \<^verbatim>\<open>p_x000D_q\<close>.
\<close>

theorem replace_placeholders_substitutes:
  assumes "presentation g = Some prs" and "plain_presentation prs" and "plain_values data"
  shows "replace_placeholders g data =
           (g\<lparr>presentation := Some (substitute_presentation data prs)\<rparr>,
            Returns (matched_occurrences data prs))"
  using assms by (rule replace_placeholders_plain)

theorem replace_placeholders_scenario_B:
  "plain_presentation [[\<lparr>text_frame = Some [''{{a}} and {{a}}''], table = None\<rparr>]] \<and>
   plain_values [''a'' \<mapsto> PStr ''X''] \<and>
   replace_placeholders (single_frame ''{{a}} and {{a}}'') [''a'' \<mapsto> PStr ''X''] =
     (single_frame ''X and X'', Returns 2) \<and>
   plain_presentation [[\<lparr>text_frame = Some [''{{a}}''], table = None\<rparr>]] \<and>
   plain_values [''a'' \<mapsto> PStr [CHR ''p'', CR, CHR ''q'']] \<and>
   replace_placeholders (single_frame ''{{a}}'') [''a'' \<mapsto> PStr [CHR ''p'', CR, CHR ''q'']] =
     (single_frame ''p_x000D_q'', Returns 1)"
proof -
  let ?prs2 = "[[\<lparr>text_frame = Some [''{{a}}''], table = None\<rparr>]]"
  have pp2: "plain_presentation ?prs2"
    by (simp add: plain_presentation_def plain_shape_def plain_paragraph_def
        needs_escape_def)
  have pv2: "plain_values [''a'' \<mapsto> PStr [CHR ''p'', CR, CHR ''q'']]"
    by (rule plain_values_upd[OF plain_values_empty]) (simp add: brace_free_def)
  have g2: "presentation (single_frame ''{{a}}'') = Some ?prs2"
    by (simp add: single_frame_def)
  have two: "replace_placeholders (single_frame ''{{a}}'') [''a'' \<mapsto> PStr [CHR ''p'', CR, CHR ''q'']] =
     (single_frame ''p_x000D_q'', Returns 1)"
    using replace_placeholders_substitutes[OF g2 pp2 pv2]
    by (simp add: single_frame_def substitute_presentation_def substitute_shape_def
        matched_occurrences_def presentation_texts_def shape_texts_def matched_count_def
        text_frame_text_def stored_text_defs match_at_def value_text_def placeholder_def)
  let ?prs = "[[\<lparr>text_frame = Some [''{{a}} and {{a}}''], table = None\<rparr>]]"
  have pp: "plain_presentation ?prs"
    by (simp add: plain_presentation_def plain_shape_def plain_paragraph_def
        needs_escape_def)
  have pv: "plain_values [''a'' \<mapsto> PStr ''X'']"
    by (rule plain_values_upd[OF plain_values_empty]) (simp add: brace_free_def)
  have g: "presentation (single_frame ''{{a}} and {{a}}'') = Some ?prs"
    by (simp add: single_frame_def)
  show ?thesis
    using replace_placeholders_substitutes[OF g pp pv] pp pv pp2 pv2 two
    by (simp add: single_frame_def substitute_presentation_def substitute_shape_def
        matched_occurrences_def presentation_texts_def shape_texts_def matched_count_def
        text_frame_text_def stored_text_defs match_at_def value_text_def placeholder_def)
qed

text \<open>
  C1, as the claim states it for every document and every map, fails. In
  \<^verbatim>\<open>{{{a}} {{a}}\<close> the pattern finds the names \<^verbatim>\<open>{a\<close> and \<open>a\<close>; replacing the matched
  occurrence of \<open>a\<close> would give \<^verbatim>\<open>{{{a}} X\<close>, but \<^verbatim>\<open>str.replace\<close> rewrites both
  substrings \<^verbatim>\<open>{{a}}\<close> and the call returns 1. A value that is the placeholder itself
  is counted twice for one occurrence, and a value that is another placeholder of the
  data does not stay in the text. Values that hold braces but no placeholder can build
  one: \<^verbatim>\<open>{{a}}x{{b}}\<close> has two occurrences and the call returns 3. A carriage return
  in the template is escaped when the frame is rewritten, which turns the placeholder
  named \<^verbatim>\<open>k\<close> followed by a carriage return, not a key, into \<^verbatim>\<open>{{k_x000D_}}\<close>, a key:
  one occurrence has a key for name and the call returns 2.
\<close>

theorem replace_placeholders_count_counterexample:
  "findall ''{{{a}} {{a}}'' = [''{a'', ''a''] \<and>
   substitute_text [''a'' \<mapsto> PStr ''X''] ''{{{a}} {{a}}'' = ''{{{a}} X'' \<and>
   replace_placeholders (single_frame ''{{{a}} {{a}}'') [''a'' \<mapsto> PStr ''X''] =
     (single_frame ''{X X'', Returns 1) \<and>
   replace_placeholders (single_frame ''{{a}}'') [''a'' \<mapsto> PStr ''{{a}}''] =
     (single_frame ''{{a}}'', Returns 2) \<and>
   replace_placeholders (single_frame ''{{a}} {{b}}'')
       [''a'' \<mapsto> PStr ''{{b}}'', ''b'' \<mapsto> PStr ''Y''] =
     (single_frame ''Y Y'', Returns 2) \<and>
   map findall [''{{'', ''}}'', ''q''] = [[], [], []] \<and>
   replace_placeholders (single_frame ''{{a}}x{{b}}'')
       [''a'' \<mapsto> PStr ''{{'', ''b'' \<mapsto> PStr ''}}'', ''x'' \<mapsto> PStr ''q''] =
     (single_frame ''q'', Returns 3) \<and>
   matched_count [''a'' \<mapsto> PStr ''X'', ''k_x000D_'' \<mapsto> PStr ''Y'']
       (''{{a}} {{k'' @ [CR] @ ''}}'') = 1 \<and>
   replace_placeholders (single_frame (''{{a}} {{k'' @ [CR] @ ''}}''))
       [''a'' \<mapsto> PStr ''X'', ''k_x000D_'' \<mapsto> PStr ''Y''] =
     (single_frame ''X Y'', Returns 2)"
  by (simp add: single_frame_def replace_placeholders_def replace_placeholders_body_def
      replace_in_shape_def replace_in_text_frame_def replace_in_paragraph_def
      text_frame_text_def stored_text_defs match_at_def matched_count_def
      value_text_def placeholder_def except_Exception_def)

text \<open>
  C2, as the code has it. For every loaded presentation and every substitution data, a
  call of \<^verbatim>\<open>replace_placeholders\<close> keeps the slides and the shapes in their order, each
  shape keeps having or not having a text frame and a table, each table keeps its rows
  and cells, and every text frame and every cell in whose text the pattern finds no key
  of the data is unchanged; when no text of the document holds a key, the document is
  unchanged and the count is 0. When moreover braces occur in the document only as the
  delimiters of placeholders, its paragraphs hold no character the library escapes and
  the values convert to texts without braces, the placeholders found in each text after
  the call are those found before whose name is not a key, in the same order. The witness holds scenario C (\<^verbatim>\<open>{{missing}}\<close> under
  the empty map: unchanged, count 0) and scenario D (one cell of a table replaced, the
  other cells unchanged).
\<close>

theorem replace_placeholders_keeps_unmatched:
  assumes "presentation g = Some prs"
  shows "\<exists>prs' n. replace_placeholders g data = (g\<lparr>presentation := Some prs'\<rparr>, Returns n) \<and>
           list_all2 (list_all2 (shape_kept data)) prs prs' \<and>
           ((\<forall>m\<in>found_names (presentation_texts prs). data m = None) \<longrightarrow> prs' = prs \<and> n = 0) \<and>
           (plain_presentation prs \<and> plain_values data \<longrightarrow>
              map findall (presentation_texts prs') =
                map (\<lambda>t. filter (\<lambda>m. m \<notin> dom data) (findall t)) (presentation_texts prs))"
proof -
  obtain prs' r where fe: "for_each (for_each (replace_in_shape data)) prs = (prs', r)"
    by (cases "for_each (for_each (replace_in_shape data)) prs")
  obtain n where n: "except_Exception r 0 = Returns n"
    using except_Exception_Returns[of r 0] by blast
  have res: "replace_placeholders g data = (g\<lparr>presentation := Some prs'\<rparr>, Returns n)"
    using assms fe n by (simp add: replace_placeholders_def replace_placeholders_body_def)
  have kept: "list_all2 (list_all2 (shape_kept data)) prs prs'"
    using presentation_kept[of data prs] fe by simp
  have none: "prs' = prs \<and> n = 0" if "\<forall>m\<in>found_names (presentation_texts prs). data m = None"
    using replace_in_presentation_none[OF that] fe n by (simp add: except_Exception_def)
  have plain: "map findall (presentation_texts prs') =
      map (\<lambda>t. filter (\<lambda>m. m \<notin> dom data) (findall t)) (presentation_texts prs)"
    if "plain_presentation prs \<and> plain_values data"
    using replace_in_presentation_plain[of data prs] findall_presentation_substituted[of data prs]
      that fe by simp
  from res kept none plain show ?thesis by blast
qed

theorem replace_placeholders_scenario_C:
  "presentation (single_frame ''{{missing}}'') \<noteq> None \<and>
   replace_placeholders (single_frame ''{{missing}}'') Map.empty =
     (single_frame ''{{missing}}'', Returns 0) \<and>
   plain_presentation (the (presentation (scenario_D ''{{h}}''))) \<and>
   plain_values [''h'' \<mapsto> PStr ''Header''] \<and>
   replace_placeholders (scenario_D ''{{h}}'') [''h'' \<mapsto> PStr ''Header''] =
     (scenario_D ''Header'', Returns 1) \<and>
   map findall (presentation_texts (the (presentation (scenario_D ''{{h}}'')))) =
     [[''h''], [], [], [''total'']] \<and>
   map findall (presentation_texts (the (presentation (scenario_D ''Header'')))) =
     [[], [], [], [''total'']]"
proof -
  let ?prs = "[[\<lparr>text_frame = Some [''{{missing}}''], table = None\<rparr>]]"
  have g: "presentation (single_frame ''{{missing}}'') = Some ?prs"
    by (simp add: single_frame_def)
  obtain prs' n where r: "replace_placeholders (single_frame ''{{missing}}'') Map.empty =
        ((single_frame ''{{missing}}'')\<lparr>presentation := Some prs'\<rparr>, Returns n)"
      "(\<forall>m\<in>found_names (presentation_texts ?prs). Map.empty m = None) \<longrightarrow> prs' = ?prs \<and> n = 0"
    using replace_placeholders_keeps_unmatched[OF g, of Map.empty] by blast
  then have "prs' = ?prs" "n = 0" by simp_all
  with r(1) have c: "replace_placeholders (single_frame ''{{missing}}'') Map.empty =
     (single_frame ''{{missing}}'', Returns 0)"
    by (simp add: single_frame_def)
  let ?data = "[''h'' \<mapsto> PStr ''Header'']"
  let ?tbl = "the (presentation (scenario_D ''{{h}}''))"
  have gd: "presentation (scenario_D ''{{h}}'') = Some ?tbl"
    by (simp add: scenario_D_def)
  have pp: "plain_presentation ?tbl"
    by (simp add: scenario_D_def plain_presentation_def plain_shape_def plain_paragraph_def
        needs_escape_def)
  have pv: "plain_values ?data"
    by (rule plain_values_upd[OF plain_values_empty]) (simp add: brace_free_def)
  have d: "replace_placeholders (scenario_D ''{{h}}'') ?data = (scenario_D ''Header'', Returns 1)"
    by (simp add: scenario_D_def replace_placeholders_def replace_placeholders_body_def
      replace_in_shape_def replace_in_table_def replace_in_paragraph_def
      match_at_def placeholder_def stored_text_defs except_Exception_def)
  obtain prs'' k where r2: "replace_placeholders (scenario_D ''{{h}}'') ?data =
        ((scenario_D ''{{h}}'')\<lparr>presentation := Some prs''\<rparr>, Returns k)"
      "plain_presentation ?tbl \<and> plain_values ?data \<longrightarrow>
         map findall (presentation_texts prs'') =
           map (\<lambda>t. filter (\<lambda>m. m \<notin> dom ?data) (findall t)) (presentation_texts ?tbl)"
    using replace_placeholders_keeps_unmatched[OF gd, of ?data] by blast
  from r2(1) d have "prs'' = the (presentation (scenario_D ''Header''))"
    by (simp add: scenario_D_def)
  with r2(2) pp pv have after: "map findall (presentation_texts (the (presentation (scenario_D ''Header'')))) =
      map (\<lambda>t. filter (\<lambda>m. m \<notin> dom ?data) (findall t)) (presentation_texts ?tbl)"
    by simp
  have before: "map findall (presentation_texts ?tbl) = [[''h''], [], [], [''total'']]"
    by (simp add: scenario_D_def presentation_texts_def shape_texts_def text_frame_text_def
        match_at_def)
  have "map (\<lambda>t. filter (\<lambda>m. m \<notin> dom ?data) (findall t)) (presentation_texts ?tbl) =
        map (filter (\<lambda>m. m \<notin> dom ?data)) (map findall (presentation_texts ?tbl))"
    by (simp add: comp_def)
  also have "\<dots> = [[], [], [], [''total'']]"
    unfolding before by simp
  finally have "map findall (presentation_texts (the (presentation (scenario_D ''Header'')))) =
     [[], [], [], [''total'']]"
    using after by simp
  with c d pp pv before show ?thesis
    by (simp add: single_frame_def)
qed

text \<open>
  C2, as the claim states it for every document, fails: in \<^verbatim>\<open>{{x{{a}} {{a}}\<close> the
  pattern finds the placeholder named \<^verbatim>\<open>x{{a\<close>, which is not a key, and the call
  rewrites it: no placeholder is left in the text after the call. Without nested braces
  it fails too when the text holds a character the library escapes: rewriting the frame
  for \<^verbatim>\<open>{{a}}\<close> turns the placeholder whose name is \<^verbatim>\<open>k\<close> and a carriage return, not a
  key, into \<^verbatim>\<open>{{k_x000D_}}\<close>.
\<close>

theorem unmatched_placeholder_altered:
  "findall ''{{x{{a}} {{a}}'' = [''x{{a'', ''a''] \<and>
   [''a'' \<mapsto> PStr ''X''] ''x{{a'' = None \<and>
   replace_placeholders (single_frame ''{{x{{a}} {{a}}'') [''a'' \<mapsto> PStr ''X''] =
     (single_frame ''{{xX X'', Returns 1) \<and>
   findall ''{{xX X'' = [] \<and>
   findall (''{{a}} {{k'' @ [CR] @ ''}}'') = [''a'', [CHR ''k'', CR]] \<and>
   [''a'' \<mapsto> PStr ''X''] [CHR ''k'', CR] = None \<and>
   replace_placeholders (single_frame (''{{a}} {{k'' @ [CR] @ ''}}'')) [''a'' \<mapsto> PStr ''X''] =
     (single_frame ''X {{k_x000D_}}'', Returns 1) \<and>
   findall ''X {{k_x000D_}}'' = [''k_x000D_'']"
  by (simp add: single_frame_def replace_placeholders_def replace_placeholders_body_def
      replace_in_shape_def replace_in_text_frame_def replace_in_paragraph_def
      text_frame_text_def stored_text_defs match_at_def placeholder_def
      except_Exception_def)

text \<open>
  C5, as the code has it. For a loaded presentation in which braces occur only as the
  delimiters of placeholders and whose paragraphs hold no character the library escapes,
  and for substitution data whose values convert to texts without braces, a second call of \<^verbatim>\<open>replace_placeholders\<close> with the same data, on the
  generator the first call left, returns 0 and changes nothing.
\<close>

theorem second_pass_replaces_nothing:
  assumes "presentation g = Some prs" and "plain_presentation prs" and "plain_values data"
  shows "replace_placeholders (fst (replace_placeholders g data)) data =
           (fst (replace_placeholders g data), Returns 0)"
proof -
  let ?prs' = "substitute_presentation data prs"
  let ?g' = "g\<lparr>presentation := Some ?prs'\<rparr>"
  have first: "fst (replace_placeholders g data) = ?g'"
    using replace_placeholders_plain[OF assms] by simp
  have "for_each (for_each (replace_in_shape data)) ?prs' = (?prs', Inr 0)"
    using substituted_names_unmatched[OF assms(3) assms(2)] by (rule replace_in_presentation_none)
  then have "replace_placeholders ?g' data = (?g', Returns 0)"
    by (simp add: replace_placeholders_def replace_placeholders_body_def except_Exception_def)
  with first show ?thesis by simp
qed

theorem second_pass_replaces_nothing_witness:
  "plain_presentation [[\<lparr>text_frame = Some [''{{a}} and {{b}}''], table = None\<rparr>]] \<and>
   plain_values [''a'' \<mapsto> PStr ''X''] \<and>
   replace_placeholders (single_frame ''{{a}} and {{b}}'') [''a'' \<mapsto> PStr ''X''] =
     (single_frame ''X and {{b}}'', Returns 1) \<and>
   replace_placeholders (single_frame ''X and {{b}}'') [''a'' \<mapsto> PStr ''X''] =
     (single_frame ''X and {{b}}'', Returns 0)"
proof -
  let ?prs = "[[\<lparr>text_frame = Some [''{{a}} and {{b}}''], table = None\<rparr>]]"
  let ?data = "[''a'' \<mapsto> PStr ''X'']"
  have pp: "plain_presentation ?prs"
    by (simp add: plain_presentation_def plain_shape_def plain_paragraph_def
        needs_escape_def)
  have pv: "plain_values ?data"
    by (rule plain_values_upd[OF plain_values_empty]) (simp add: brace_free_def)
  have g: "presentation (single_frame ''{{a}} and {{b}}'') = Some ?prs"
    by (simp add: single_frame_def)
  have one: "replace_placeholders (single_frame ''{{a}} and {{b}}'') ?data =
     (single_frame ''X and {{b}}'', Returns 1)"
    by (simp add: single_frame_def replace_placeholders_def replace_placeholders_body_def
      replace_in_shape_def replace_in_text_frame_def replace_in_paragraph_def
      text_frame_text_def stored_text_defs match_at_def placeholder_def
      except_Exception_def)
  show ?thesis
    using second_pass_replaces_nothing[OF g pp pv] pp pv one by simp
qed

text \<open>
  C5, as the claim states it for every document, fails although no value holds a brace:
  with nested braces in the template the first call leaves \<^verbatim>\<open>{{Yc}}\<close>, whose name is a
  key, and the second call returns 1. It also fails on a template without nested braces
  when values hold braces but no placeholder: the first call leaves \<^verbatim>\<open>{{c}}\<close>. And it
  fails when a table cell holds a carriage return in a placeholder that is not a key:
  the first call rewrites the paragraph, the library stores \<^verbatim>\<open>{{k_x000D_}}\<close>, a key, and
  the second call returns 1.
\<close>

theorem second_pass_counterexample:
  "plain_values [''a'' \<mapsto> PStr ''X'', ''Xb'' \<mapsto> PStr ''Y'', ''Yc'' \<mapsto> PStr ''Z''] \<and>
   replace_placeholders (single_frame ''{{{{{{a}}b}}c}} {{{{a}}b}} {{a}}'')
       [''a'' \<mapsto> PStr ''X'', ''Xb'' \<mapsto> PStr ''Y'', ''Yc'' \<mapsto> PStr ''Z''] =
     (single_frame ''{{Yc}} Y X'', Returns 2) \<and>
   replace_placeholders (single_frame ''{{Yc}} Y X'')
       [''a'' \<mapsto> PStr ''X'', ''Xb'' \<mapsto> PStr ''Y'', ''Yc'' \<mapsto> PStr ''Z''] =
     (single_frame ''Z Y X'', Returns 1) \<and>
   plain_presentation [[\<lparr>text_frame = Some [''{{a}}{{a}}y{{b}}{{b}}''], table = None\<rparr>]] \<and>
   map findall [''{{'', ''}}'', ''{{c'', ''z''] = [[], [], [], []] \<and>
   replace_placeholders (single_frame ''{{a}}{{a}}y{{b}}{{b}}'')
       [''a'' \<mapsto> PStr ''{{'', ''b'' \<mapsto> PStr ''}}'', ''{{y'' \<mapsto> PStr ''{{c'',
        ''c'' \<mapsto> PStr ''z''] =
     (single_frame ''{{c}}'', Returns 5) \<and>
   replace_placeholders (single_frame ''{{c}}'')
       [''a'' \<mapsto> PStr ''{{'', ''b'' \<mapsto> PStr ''}}'', ''{{y'' \<mapsto> PStr ''{{c'',
        ''c'' \<mapsto> PStr ''z''] =
     (single_frame ''z'', Returns 1) \<and>
   plain_values [''h'' \<mapsto> PStr ''Header'', ''k_x000D_'' \<mapsto> PStr ''Y''] \<and>
   replace_placeholders (scenario_D (''{{h}} {{k'' @ [CR] @ ''}}''))
       [''h'' \<mapsto> PStr ''Header'', ''k_x000D_'' \<mapsto> PStr ''Y''] =
     (scenario_D ''Header {{k_x000D_}}'', Returns 1) \<and>
   replace_placeholders (scenario_D ''Header {{k_x000D_}}'')
       [''h'' \<mapsto> PStr ''Header'', ''k_x000D_'' \<mapsto> PStr ''Y''] =
     (scenario_D ''Header Y'', Returns 1)"
proof -
  have "plain_values [''h'' \<mapsto> PStr ''Header'', ''k_x000D_'' \<mapsto> PStr ''Y'']"
    by (intro plain_values_upd plain_values_empty) (simp_all add: brace_free_def)
  moreover
  have "plain_values [''a'' \<mapsto> PStr ''X'', ''Xb'' \<mapsto> PStr ''Y'', ''Yc'' \<mapsto> PStr ''Z'']"
    by (intro plain_values_upd plain_values_empty) (simp_all add: brace_free_def)
  moreover have
    "plain_presentation [[\<lparr>text_frame = Some [''{{a}}{{a}}y{{b}}{{b}}''], table = None\<rparr>]]"
    by (simp add: plain_presentation_def plain_shape_def plain_paragraph_def
        needs_escape_def)
  ultimately show ?thesis
    by (simp add: single_frame_def scenario_D_def replace_in_table_def
      replace_placeholders_def replace_placeholders_body_def
      replace_in_shape_def replace_in_text_frame_def replace_in_paragraph_def
      text_frame_text_def stored_text_defs match_at_def placeholder_def
      except_Exception_def)
qed

end
